theory Spec2Isabelle
  imports Main "HOL-Library.AList"
begin

section \<open>The reconciler of \<^verbatim>\<open>src/dom.ts\<close>\<close>

subsection \<open>Values handed to the reconciler\<close>

text \<open>
  The reconciler receives values of type \<^verbatim>\<open>any\<close>. The values it distinguishes are the
  primitives, arrays, tree nodes, and every other object or function. An array carries the
  identity of the JavaScript array object (\<open>aref\<close>), which \<^verbatim>\<open>nodes === value\<close> compares, and
  its elements; a tree node is its identity in the node heap. Numbers are the integers;
  symbols (whose string coercion throws) and cyclic arrays are outside this value universe.
\<close>

type_synonym nid = nat
type_synonym aref = nat

datatype jsval =
    Undefined
  | Null
  | Bool bool
  | Num int
  | Str string
  | Arr aref "jsval list"
  | NodeV nid
  | Obj
  | Fun

fun isArray :: "jsval \<Rightarrow> bool" where
  "isArray (Arr _ _) = True"
| "isArray _ = False"

text \<open>\<^verbatim>\<open>typeof value\<close>: null, arrays, nodes and plain objects are all \<^verbatim>\<open>"object"\<close>.\<close>

fun typeof :: "jsval \<Rightarrow> string" where
  "typeof Undefined = ''undefined''"
| "typeof Null = ''object''"
| "typeof (Bool _) = ''boolean''"
| "typeof (Num _) = ''number''"
| "typeof (Str _) = ''string''"
| "typeof (Arr _ _) = ''object''"
| "typeof (NodeV _) = ''object''"
| "typeof Obj = ''object''"
| "typeof Fun = ''function''"

fun digit_char :: "nat \<Rightarrow> char" where
  "digit_char n = char_of (48 + n)"

fun string_of_nat :: "nat \<Rightarrow> string" where
  "string_of_nat n =
     (if n < 10 then [digit_char n] else string_of_nat (n div 10) @ [digit_char (n mod 10)])"

declare string_of_nat.simps [simp del]

definition string_of_int :: "int \<Rightarrow> string" where
  "string_of_int i = (if i < 0 then CHR ''-'' # string_of_nat (nat (- i)) else string_of_nat (nat i))"

text \<open>
  String coercion \<^verbatim>\<open>"" + value\<close>. Only primitives reach it in \<^verbatim>\<open>toNode\<close>; the text given to
  an object, a node or a function stands for whatever its \<^verbatim>\<open>toString\<close> returns.
\<close>

fun ToString :: "jsval \<Rightarrow> string" where
  "ToString Undefined = ''undefined''"
| "ToString Null = ''null''"
| "ToString (Bool b) = (if b then ''true'' else ''false'')"
| "ToString (Num i) = string_of_int i"
| "ToString (Str s) = s"
| "ToString (Arr _ _) = ''[object Array]''"
| "ToString (NodeV _) = ''[object Node]''"
| "ToString Obj = ''[object Object]''"
| "ToString Fun = ''function''"

subsection \<open>The node tree\<close>

datatype ntype =
    ELEMENT_NODE
  | ATTRIBUTE_NODE
  | TEXT_NODE
  | COMMENT_NODE
  | DOCUMENT_FRAGMENT_NODE

text \<open>
  A node of the host tree: its type, its \<^verbatim>\<open>nodeValue\<close> (text, comment and attribute nodes),
  its parent and ordered children, and for an attribute its name and owner element. An
  element also carries the names of its attributes (\<^verbatim>\<open>hasAttribute\<close>) and the script
  properties written to it.
\<close>

record node =
  nodeType :: ntype
  nodeValue :: string
  parentNode :: "nid option"
  childNodes :: "nid list"
  nodeName :: string
  ownerElement :: "nid option"
  attributes :: "string list"
  properties :: "(string \<times> jsval) list"

text \<open>
  What the tree and the signal module observe, in call order: every successful host call that
  changes the tree, and every call of \<^verbatim>\<open>cleanup\<close>.
\<close>

datatype event =
    ReplaceChild nid nid nid
  | InsertBefore nid nid "nid option"
  | RemoveChild nid nid
  | Cleanup nid

datatype error =
    InvalidRenderable
  | InternalEmptyList
  | TypeError
  | HierarchyRequestError
  | NotFoundError
  | StoreValueError

text \<open>
  The state the reconciler works on: the node heap (every identity below \<open>nextNode\<close> has
  been created), the number of array objects created so far, the module-level table
  \<^verbatim>\<open>attributeToProperty\<close>, and the trace of events.
\<close>

record dom =
  nodes :: "nid \<Rightarrow> node"
  nextNode :: nid
  nextArr :: aref
  attributeToProperty :: "(string \<times> string) list"
  trace :: "event list"

definition blank :: "ntype \<Rightarrow> string \<Rightarrow> node" where
  "blank t s = \<lparr> nodeType = t, nodeValue = s, parentNode = None, childNodes = [],
     nodeName = [], ownerElement = None, attributes = [], properties = [] \<rparr>"

text \<open>\<^verbatim>\<open>new Comment(s)\<close> and \<^verbatim>\<open>new Text(s)\<close>: a fresh detached node.\<close>

definition newNode :: "ntype \<Rightarrow> string \<Rightarrow> dom \<Rightarrow> nid \<times> dom" where
  "newNode t s st =
     (nextNode st, st\<lparr> nodes := (nodes st)(nextNode st := blank t s), nextNode := Suc (nextNode st) \<rparr>)"

definition newComment :: "string \<Rightarrow> dom \<Rightarrow> nid \<times> dom" where
  "newComment s st = newNode COMMENT_NODE s st"

definition newText :: "string \<Rightarrow> dom \<Rightarrow> nid \<times> dom" where
  "newText s st = newNode TEXT_NODE s st"

definition parent_of :: "dom \<Rightarrow> nid \<Rightarrow> nid option" where
  "parent_of st n = parentNode (nodes st n)"

definition children_of :: "dom \<Rightarrow> nid \<Rightarrow> nid list" where
  "children_of st n = childNodes (nodes st n)"

fun after :: "nid \<Rightarrow> nid list \<Rightarrow> nid option" where
  "after n [] = None"
| "after n [x] = None"
| "after n (x # y # ys) = (if x = n then Some y else after n (y # ys))"

text \<open>\<^verbatim>\<open>node.nextSibling\<close>.\<close>

definition nextSibling :: "dom \<Rightarrow> nid \<Rightarrow> nid option" where
  "nextSibling st n =
     (case parent_of st n of None \<Rightarrow> None | Some p \<Rightarrow> after n (children_of st p))"

text \<open>
  Whether \<open>a\<close> is \<open>n\<close> or one of its ancestors; the walk up the parent chain is bounded
  by the number of nodes.
\<close>

fun inclusive_ancestor :: "nat \<Rightarrow> dom \<Rightarrow> nid \<Rightarrow> nid \<Rightarrow> bool" where
  "inclusive_ancestor 0 st a n = (a = n)"
| "inclusive_ancestor (Suc k) st a n =
     (a = n \<or> (case parent_of st n of None \<Rightarrow> False | Some p \<Rightarrow> inclusive_ancestor k st a p))"

text \<open>Taking a node out of its parent's child list (the host's remove step).\<close>

definition detach :: "nid \<Rightarrow> dom \<Rightarrow> dom" where
  "detach n st =
     (case parent_of st n of
        None \<Rightarrow> st
      | Some p \<Rightarrow>
          (let ns1 = (nodes st)(p := (nodes st p)\<lparr> childNodes := removeAll n (childNodes (nodes st p)) \<rparr>);
               ns2 = ns1(n := (ns1 n)\<lparr> parentNode := None \<rparr>)
           in st\<lparr> nodes := ns2 \<rparr>))"

fun insert_at :: "nid option \<Rightarrow> nid list \<Rightarrow> nid list \<Rightarrow> nid list" where
  "insert_at None new cs = cs @ new"
| "insert_at (Some r) new [] = new"
| "insert_at (Some r) new (c # cs) = (if c = r then new @ c # cs else c # insert_at (Some r) new cs)"

definition set_parent :: "nid \<Rightarrow> nid \<Rightarrow> dom \<Rightarrow> dom" where
  "set_parent p n st = st\<lparr> nodes := (nodes st)(n := (nodes st n)\<lparr> parentNode := Some p \<rparr>) \<rparr>"

text \<open>
  The host's insert step: a document fragment hands over its children, any other node is
  taken out of its old parent; the nodes then enter the child list of \<open>p\<close> before \<open>r\<close>
  (at the end when \<open>r\<close> is null).
\<close>

definition place :: "nid \<Rightarrow> nid \<Rightarrow> nid option \<Rightarrow> dom \<Rightarrow> dom" where
  "place p n r st =
     (let moved = (if nodeType (nodes st n) = DOCUMENT_FRAGMENT_NODE then children_of st n else [n]);
          st1 = fold detach moved st;
          st2 = st1\<lparr> nodes := (nodes st1)(p := (nodes st1 p)\<lparr> childNodes := insert_at r moved (childNodes (nodes st1 p)) \<rparr>) \<rparr>
      in fold (set_parent p) moved st2)"

text \<open>
  The host's validity checks before an insertion or replacement, in the order the host makes
  them: the parent must be able to have children and the node must not be the parent or one of
  its ancestors (\<open>parent_ok\<close>); the reference child must be a child of the parent; the node
  must be of a type that can be a child (\<open>kind_ok\<close>).
\<close>

definition parent_ok :: "dom \<Rightarrow> nid \<Rightarrow> nid \<Rightarrow> bool" where
  "parent_ok st p n =
     (nodeType (nodes st p) \<in> {ELEMENT_NODE, DOCUMENT_FRAGMENT_NODE}
      \<and> \<not> inclusive_ancestor (nextNode st) st n p)"

definition kind_ok :: "dom \<Rightarrow> nid \<Rightarrow> bool" where
  "kind_ok st n = (nodeType (nodes st n) \<noteq> ATTRIBUTE_NODE)"

text \<open>\<^verbatim>\<open>p.insertBefore(n, r)\<close>.\<close>

definition insertBefore :: "nid \<Rightarrow> nid \<Rightarrow> nid option \<Rightarrow> dom \<Rightarrow> error + dom" where
  "insertBefore p n r st =
     (if \<not> parent_ok st p n then Inl HierarchyRequestError
      else if (case r of None \<Rightarrow> False | Some c \<Rightarrow> parent_of st c \<noteq> Some p) then Inl NotFoundError
      else if \<not> kind_ok st n then Inl HierarchyRequestError
      else
        (let r' = (if r = Some n then nextSibling st n else r);
             st1 = place p n r' st
         in Inr (st1\<lparr> trace := trace st1 @ [InsertBefore p n r] \<rparr>)))"

text \<open>\<^verbatim>\<open>p.replaceChild(n, old)\<close>.\<close>

definition replaceChild :: "nid \<Rightarrow> nid \<Rightarrow> nid \<Rightarrow> dom \<Rightarrow> error + dom" where
  "replaceChild p n old st =
     (if \<not> parent_ok st p n then Inl HierarchyRequestError
      else if parent_of st old \<noteq> Some p then Inl NotFoundError
      else if \<not> kind_ok st n then Inl HierarchyRequestError
      else
        (let r = nextSibling st old;
             r' = (if r = Some n then nextSibling st n else r);
             st1 = place p n r' (detach old st)
         in Inr (st1\<lparr> trace := trace st1 @ [ReplaceChild p n old] \<rparr>)))"

text \<open>\<^verbatim>\<open>p.removeChild(n)\<close>.\<close>

definition removeChild :: "nid \<Rightarrow> nid \<Rightarrow> dom \<Rightarrow> error + dom" where
  "removeChild p n st =
     (if parent_of st n \<noteq> Some p then Inl NotFoundError
      else (let st1 = detach n st in Inr (st1\<lparr> trace := trace st1 @ [RemoveChild p n] \<rparr>)))"

text \<open>
  Modelled from the spec: \<^verbatim>\<open>cleanup\<close> of the signal module, which is not part of the
  sources at hand. The spec describes it as the hook that is invoked for a detached node and
  releases the listeners registered for it; it does not touch the tree, so the model records
  the call.
\<close>

definition cleanup :: "nid \<Rightarrow> dom \<Rightarrow> dom" where
  "cleanup n st = st\<lparr> trace := trace st @ [Cleanup n] \<rparr>"

subsection \<open>\<^verbatim>\<open>toNode\<close>\<close>

text \<open>The result of a conversion or an update: \<^verbatim>\<open>Node | NodeList\<close>.\<close>

datatype rendered = One nid | Many aref "nid list"

text \<open>
  \<^verbatim>\<open>toNode\<close> (lines 101-130). \<open>toNode_loop\<close> is the \<^verbatim>\<open>for (const el of value)\<close> loop, with
  the array \<^verbatim>\<open>res\<close> built so far. A throw leaves the state as it was at the throw.
\<close>

fun toNode :: "jsval \<Rightarrow> dom \<Rightarrow> (error + rendered) \<times> dom"
  and toNode_loop :: "jsval list \<Rightarrow> nid list \<Rightarrow> dom \<Rightarrow> (error + nid list) \<times> dom" where
  "toNode (Arr a els) st =
     (let r = nextArr st; st0 = st\<lparr> nextArr := Suc (nextArr st) \<rparr> in
      case toNode_loop els [] st0 of
        (Inl e, st1) \<Rightarrow> (Inl e, st1)
      | (Inr res, st1) \<Rightarrow>
          (if length res \<noteq> 0 then (Inr (Many r res), st1)
           else (case newComment [] st1 of (c, st2) \<Rightarrow> (Inr (One c), st2))))"
| "toNode Null st = (case newComment [] st of (c, st1) \<Rightarrow> (Inr (One c), st1))"
| "toNode (NodeV n) st = (Inr (One n), st)"
| "toNode Obj st = (Inl InvalidRenderable, st)"
| "toNode Fun st = (Inl InvalidRenderable, st)"
| "toNode v st = (case newText (ToString v) st of (t, st1) \<Rightarrow> (Inr (One t), st1))"
| "toNode_loop [] res st = (Inr res, st)"
| "toNode_loop (el # els) res st =
     (case toNode el st of
        (Inl e, st1) \<Rightarrow> (Inl e, st1)
      | (Inr (Many _ ns), st1) \<Rightarrow> toNode_loop els (res @ ns) st1
      | (Inr (One n), st1) \<Rightarrow> toNode_loop els (res @ [n]) st1)"

subsection \<open>Replacing and inserting\<close>

text \<open>\<^verbatim>\<open>old.parentNode?.replaceChild(n, old)\<close>: nothing happens when \<open>old\<close> has no parent.\<close>

definition replace_in_parent :: "nid \<Rightarrow> nid \<Rightarrow> dom \<Rightarrow> error + dom" where
  "replace_in_parent n old st =
     (case parent_of st old of None \<Rightarrow> Inr st | Some p \<Rightarrow> replaceChild p n old st)"

text \<open>
  The loop of \<^verbatim>\<open>replaceNode\<close> (lines 252-254) over the nodes left after the \<^verbatim>\<open>pop\<close>:
  \<^verbatim>\<open>old.parentNode?.insertBefore(child, last)\<close>, where \<^verbatim>\<open>old.parentNode\<close> is read anew in
  every round.
\<close>

fun replaceNode_loop :: "nid list \<Rightarrow> nid \<Rightarrow> nid \<Rightarrow> dom \<Rightarrow> (error + unit) \<times> dom" where
  "replaceNode_loop [] lst old st = (Inr (), st)"
| "replaceNode_loop (child # rest) lst old st =
     (case parent_of st old of
        None \<Rightarrow> replaceNode_loop rest lst old st
      | Some p \<Rightarrow>
          (case insertBefore p child (Some lst) st of
             Inl e \<Rightarrow> (Inl e, st)
           | Inr st1 \<Rightarrow> replaceNode_loop rest lst old st1))"

text \<open>
  \<^verbatim>\<open>replaceNode\<close> (lines 242-257). For a list, \<^verbatim>\<open>node.pop()\<close> takes the last node off the
  array and \<^verbatim>\<open>node.push(last)\<close> puts it back, so the array returned is the one received.
\<close>

fun replaceNode :: "rendered \<Rightarrow> nid \<Rightarrow> dom \<Rightarrow> (error + rendered) \<times> dom" where
  "replaceNode (One n) old st =
     (case replace_in_parent n old st of
        Inl e \<Rightarrow> (Inl e, st)
      | Inr st1 \<Rightarrow> (Inr (One n), cleanup old st1))"
| "replaceNode (Many a ns) old st =
     (if ns = [] then (Inl InternalEmptyList, st)
      else
        (let lst = last ns; rest = butlast ns in
         case replace_in_parent lst old st of
           Inl e \<Rightarrow> (Inl e, st)
         | Inr st1 \<Rightarrow>
             (case replaceNode_loop rest lst old (cleanup old st1) of
                (Inl e, st2) \<Rightarrow> (Inl e, st2)
              | (Inr _, st2) \<Rightarrow> (Inr (Many a (rest @ [lst])), st2))))"

text \<open>\<^verbatim>\<open>target.parentNode?.insertBefore(n, target.nextSibling)\<close>.\<close>

definition insert_after_one :: "nid \<Rightarrow> nid \<Rightarrow> dom \<Rightarrow> error + dom" where
  "insert_after_one n target st =
     (case parent_of st target of
        None \<Rightarrow> Inr st
      | Some p \<Rightarrow> insertBefore p n (nextSibling st target) st)"

fun insertAfter_loop :: "nid list \<Rightarrow> nid \<Rightarrow> dom \<Rightarrow> (error + unit) \<times> dom" where
  "insertAfter_loop [] target st = (Inr (), st)"
| "insertAfter_loop (child # rest) target st =
     (case insert_after_one child target st of
        Inl e \<Rightarrow> (Inl e, st)
      | Inr st1 \<Rightarrow> insertAfter_loop rest target st1)"

text \<open>\<^verbatim>\<open>insertAfter\<close> (lines 259-264).\<close>

fun insertAfter :: "rendered \<Rightarrow> nid \<Rightarrow> dom \<Rightarrow> (error + unit) \<times> dom" where
  "insertAfter (One n) target st =
     (case insert_after_one n target st of Inl e \<Rightarrow> (Inl e, st) | Inr st1 \<Rightarrow> (Inr (), st1))"
| "insertAfter (Many a ns) target st = insertAfter_loop ns target st"

subsection \<open>\<^verbatim>\<open>updateOne\<close>\<close>

text \<open>
  Assigning \<^verbatim>\<open>node.nodeValue = value\<close>: the host coerces the value to a string, null and
  undefined to the empty string.
\<close>

definition set_nodeValue :: "nid \<Rightarrow> jsval \<Rightarrow> dom \<Rightarrow> dom" where
  "set_nodeValue n v st =
     st\<lparr> nodes := (nodes st)(n := (nodes st n)
          \<lparr> nodeValue := (if v = Undefined \<or> v = Null then [] else ToString v) \<rparr>) \<rparr>"

text \<open>
  \<^verbatim>\<open>updateOwnerProperty\<close> (lines 224-231). A name missing from \<^verbatim>\<open>attributeToProperty\<close>
  reads as undefined, which \<^verbatim>\<open>hasAttribute\<close> and the property write coerce to a string.
  Attribute names are compared as given.
\<close>

definition updateOwnerProperty :: "nid \<Rightarrow> jsval \<Rightarrow> dom \<Rightarrow> dom" where
  "updateOwnerProperty attr v st =
     (case ownerElement (nodes st attr) of
        None \<Rightarrow> st
      | Some owner \<Rightarrow>
          (let prop = (case map_of (attributeToProperty st) (nodeName (nodes st attr)) of
                         None \<Rightarrow> ''undefined'' | Some p \<Rightarrow> p)
           in if prop \<in> set (attributes (nodes st owner))
              then st\<lparr> nodes := (nodes st)(owner := (nodes st owner)
                     \<lparr> properties := AList.update prop v (properties (nodes st owner)) \<rparr>) \<rparr>
              else st))"

text \<open>\<^verbatim>\<open>replaceNode(toNode(value), node)\<close>: the conversion runs first and may throw.\<close>

definition replace_with :: "jsval \<Rightarrow> nid \<Rightarrow> dom \<Rightarrow> (error + rendered) \<times> dom" where
  "replace_with v old st =
     (case toNode v st of
        (Inl e, st1) \<Rightarrow> (Inl e, st1)
      | (Inr r, st1) \<Rightarrow> replaceNode r old st1)"

text \<open>\<^verbatim>\<open>updateOne\<close> (lines 194-217).\<close>

definition updateOne :: "nid \<Rightarrow> jsval \<Rightarrow> dom \<Rightarrow> (error + rendered) \<times> dom" where
  "updateOne n v st =
     (if v = NodeV n then (Inr (One n), st)
      else if isArray v then replace_with v n st
      else
        (case nodeType (nodes st n) of
           ATTRIBUTE_NODE \<Rightarrow> (Inr (One n), updateOwnerProperty n v (set_nodeValue n v st))
         | TEXT_NODE \<Rightarrow>
             (if typeof v \<noteq> ''object'' then (Inr (One n), set_nodeValue n v st)
              else replace_with v n st)
         | COMMENT_NODE \<Rightarrow>
             (if v = Null then (Inr (One n), st) else replace_with v n st)
         | _ \<Rightarrow> replace_with v n st))"

subsection \<open>\<^verbatim>\<open>updateMany\<close>\<close>

text \<open>
  The first loop of \<^verbatim>\<open>updateMany\<close> (lines 159-167), from index \<open>i\<close> with the array \<^verbatim>\<open>res\<close>
  built so far. \<^verbatim>\<open>updateOne\<close> always returns a node or a list, so \<^verbatim>\<open>updated ?? nodes[i]\<close>
  is \<^verbatim>\<open>updated\<close>.
\<close>

function update_loop :: "nat \<Rightarrow> nat \<Rightarrow> nid list \<Rightarrow> jsval list \<Rightarrow> nid list \<Rightarrow> dom
    \<Rightarrow> (error + nid list) \<times> dom" where
  "update_loop i m ns vs res st =
     (if i < m then
        (case updateOne (ns ! i) (vs ! i) st of
           (Inl e, st1) \<Rightarrow> (Inl e, st1)
         | (Inr (Many _ upd), st1) \<Rightarrow> update_loop (Suc i) m ns vs (res @ upd) st1
         | (Inr (One u), st1) \<Rightarrow> update_loop (Suc i) m ns vs (res @ [u]) st1)
      else (Inr res, st))"
  by pat_completeness auto
termination
  by (relation "measure (\<lambda>(i, m, ns, vs, res, st). m - i)") auto

declare update_loop.simps [simp del]

text \<open>\<^verbatim>\<open>nodes[i].parentNode?.removeChild(nodes[i])\<close>; the parent is the node's own, so the
  host call cannot fail.\<close>

definition remove_from_parent :: "nid \<Rightarrow> dom \<Rightarrow> dom" where
  "remove_from_parent n st =
     (case parent_of st n of
        None \<Rightarrow> st
      | Some p \<Rightarrow> (case removeChild p n st of Inl e \<Rightarrow> st | Inr st1 \<Rightarrow> st1))"

text \<open>The second loop (lines 168-170).\<close>

function remove_loop :: "nat \<Rightarrow> nid list \<Rightarrow> dom \<Rightarrow> dom" where
  "remove_loop i ns st =
     (if i < length ns then remove_loop (Suc i) ns (remove_from_parent (ns ! i) st) else st)"
  by pat_completeness auto
termination
  by (relation "measure (\<lambda>(i, ns, st). length ns - i)") auto

declare remove_loop.simps [simp del]

text \<open>
  The third loop (lines 171-180). \<^verbatim>\<open>res[res.length - 1]\<close> of an empty \<^verbatim>\<open>res\<close> is undefined,
  and \<^verbatim>\<open>insertAfter\<close> then fails reading \<^verbatim>\<open>target.parentNode\<close>.
\<close>

function insert_loop :: "nat \<Rightarrow> jsval list \<Rightarrow> nid list \<Rightarrow> dom \<Rightarrow> (error + nid list) \<times> dom" where
  "insert_loop i vs res st =
     (if i < length vs then
        (case toNode (vs ! i) st of
           (Inl e, st1) \<Rightarrow> (Inl e, st1)
         | (Inr r, st1) \<Rightarrow>
             (if res = [] then (Inl TypeError, st1)
              else
                (case insertAfter r (last res) st1 of
                   (Inl e, st2) \<Rightarrow> (Inl e, st2)
                 | (Inr _, st2) \<Rightarrow>
                     insert_loop (Suc i) vs (res @ (case r of Many _ new \<Rightarrow> new | One n \<Rightarrow> [n])) st2)))
      else (Inr res, st))"
  by pat_completeness auto
termination
  by (relation "measure (\<lambda>(i, vs, res, st). length vs - i)") auto

declare insert_loop.simps [simp del]

text \<open>The loop of the branch for a value that is not an array (lines 151-153).\<close>

fun collapse_loop :: "nid list \<Rightarrow> nid \<Rightarrow> dom \<Rightarrow> (error + unit) \<times> dom" where
  "collapse_loop [] parent st = (Inr (), st)"
| "collapse_loop (n # rest) parent st =
     (case removeChild parent n st of
        Inl e \<Rightarrow> (Inl e, st)
      | Inr st1 \<Rightarrow> collapse_loop rest parent st1)"

text \<open>
  \<^verbatim>\<open>updateMany\<close> (lines 145-184) on the array \<open>a\<close> holding \<open>ns\<close>. \<^verbatim>\<open>nodes.shift()\<close> of an
  empty array is undefined, and reading its \<^verbatim>\<open>parentNode\<close> fails. After the shift the array
  \<open>a\<close> holds the remaining nodes, and that array is returned when the first node has no
  parent. The array \<^verbatim>\<open>res\<close> is a new one.
\<close>

definition updateMany :: "aref \<Rightarrow> nid list \<Rightarrow> jsval \<Rightarrow> dom \<Rightarrow> (error + rendered) \<times> dom" where
  "updateMany a ns v st =
     (case v of
        Arr b vs \<Rightarrow>
          (if b = a then (Inr (Many a ns), st)
           else
             (let m = min (length vs) (length ns);
                  r = nextArr st;
                  st0 = st\<lparr> nextArr := Suc (nextArr st) \<rparr>
              in case update_loop 0 m ns vs [] st0 of
                   (Inl e, st1) \<Rightarrow> (Inl e, st1)
                 | (Inr res, st1) \<Rightarrow>
                     (case insert_loop m vs res (remove_loop m ns st1) of
                        (Inl e, st2) \<Rightarrow> (Inl e, st2)
                      | (Inr res', st2) \<Rightarrow> (Inr (Many r res'), st2))))
      | _ \<Rightarrow>
          (case ns of
             [] \<Rightarrow> (Inl TypeError, st)
           | first # rest \<Rightarrow>
               (case parent_of st first of
                  None \<Rightarrow> (Inr (Many a rest), st)
                | Some parent \<Rightarrow>
                    (case collapse_loop rest parent st of
                       (Inl e, st1) \<Rightarrow> (Inl e, st1)
                     | (Inr _, st1) \<Rightarrow> replace_with v first st1))))"

text \<open>\<^verbatim>\<open>updateDOM\<close> (lines 132-134).\<close>

fun updateDOM :: "rendered \<Rightarrow> jsval \<Rightarrow> dom \<Rightarrow> (error + rendered) \<times> dom" where
  "updateDOM (Many a ns) v st = updateMany a ns v st"
| "updateDOM (One n) v st = updateOne n v st"

section \<open>The store of \<^verbatim>\<open>src/store.ts\<close>\<close>

subsection \<open>Values, objects and reactive cells\<close>

text \<open>
  A value held by a store or a signal is a primitive or a reference to an object of the heap;
  strict equality \<^verbatim>\<open>===\<close> on these values is equality of the primitives and identity of the
  references. Function values (methods of the underlying value, which the property read binds
  to the proxy) are outside this value universe.
\<close>

type_synonym addr = nat
type_synonym rid = nat

datatype sval = SUndefined | SNull | SBool bool | SNum int | SStr string | SRef addr

text \<open>
  A plain object or an array: its own enumerable properties in the order they were created,
  and its own properties that enumeration does not show (the \<^verbatim>\<open>length\<close> of an array). The
  host's coupling between an array's length and its elements is not modelled: a write changes
  the property written.
\<close>

record obj =
  props :: "(string \<times> sval) list"
  hidden :: "(string \<times> sval) list"

text \<open>\<^verbatim>\<open>o.hasOwnProperty(k)\<close>, \<^verbatim>\<open>o[k]\<close> and \<^verbatim>\<open>o[k] = v\<close>.\<close>

definition hasOwn :: "obj \<Rightarrow> string \<Rightarrow> bool" where
  "hasOwn ob k = (k \<in> set (map fst (props ob)) \<or> k \<in> set (map fst (hidden ob)))"

definition getProp :: "obj \<Rightarrow> string \<Rightarrow> sval" where
  "getProp ob k =
     (case map_of (hidden ob) k of
        Some v \<Rightarrow> v
      | None \<Rightarrow> (case map_of (props ob) k of Some v \<Rightarrow> v | None \<Rightarrow> SUndefined))"

definition setProp :: "obj \<Rightarrow> string \<Rightarrow> sval \<Rightarrow> obj" where
  "setProp ob k v =
     (if k \<in> set (map fst (hidden ob)) then ob\<lparr> hidden := AList.update k v (hidden ob) \<rparr>
      else ob\<lparr> props := AList.update k v (props ob) \<rparr>)"

text \<open>
  The order in which \<^verbatim>\<open>for (const key in o)\<close> visits own enumerable keys: the keys that are
  array indices (canonical decimal numerals; their upper bound is not modelled) in ascending
  numeric order, then the other keys in creation order.
\<close>

definition is_digit :: "char \<Rightarrow> bool" where
  "is_digit c = ((48::nat) \<le> of_char c \<and> (of_char c :: nat) \<le> 57)"

definition is_index :: "string \<Rightarrow> bool" where
  "is_index k = (k \<noteq> [] \<and> list_all is_digit k \<and> (k = ''0'' \<or> hd k \<noteq> CHR ''0''))"

definition index_of :: "string \<Rightarrow> nat" where
  "index_of k = foldl (\<lambda>n c. 10 * n + ((of_char c :: nat) - 48)) 0 k"

definition enum_keys :: "string list \<Rightarrow> string list" where
  "enum_keys ks = sort_key index_of (filter is_index ks) @ filter (\<lambda>k. \<not> is_index k) ks"

text \<open>
  A listener of a signal. The only listener this module registers is the one of line 137,
  \<^verbatim>\<open>(value) => target[$value][prop] = value\<close>, which closes over the parent \<open>target\<close> and the
  key \<open>prop\<close>.
\<close>

datatype listener = WriteBack rid string

text \<open>
  A reactive cell, signal or store: the internal fields \<^verbatim>\<open>$value\<close> and \<^verbatim>\<open>$listeners\<close>, the
  own string-keyed properties of the object, which are the materialized children in creation
  order, and whether its prototype is \<^verbatim>\<open>storePrototype\<close>. A store and the proxy around it are
  one identity.
\<close>

record reactive =
  rvalue :: sval
  listeners :: "listener list"
  children :: "(string \<times> rid) list"
  isStore :: bool

text \<open>
  The state: the heap of objects, the reactive cells, and the log of \<^verbatim>\<open>$emit\<close> calls in call
  order.
\<close>

record sstate =
  heap :: "addr \<Rightarrow> obj"
  nextAddr :: addr
  reactives :: "rid \<Rightarrow> reactive"
  nextRid :: rid
  emitted :: "rid list"

text \<open>
  The outcome of a call that may recurse through children: \<open>None\<close> when the recursion did
  not return within the given depth, otherwise the value returned or the error thrown, with the
  state at that moment.
\<close>

type_synonym 'a outcome = "((error + 'a) \<times> sstate) option"

definition upd_reactive :: "rid \<Rightarrow> (reactive \<Rightarrow> reactive) \<Rightarrow> sstate \<Rightarrow> sstate" where
  "upd_reactive r f st = st\<lparr> reactives := (reactives st)(r := f (reactives st r)) \<rparr>"

definition child :: "sstate \<Rightarrow> rid \<Rightarrow> string \<Rightarrow> rid option" where
  "child st r k = map_of (children (reactives st r)) k"

subsection \<open>The signal module\<close>

text \<open>
  Modelled from the spec: \<^verbatim>\<open>createSignal\<close>, \<^verbatim>\<open>signalPrototype.set\<close> and \<^verbatim>\<open>$emit\<close> of the
  signal module, which is not part of the sources at hand. Section 4.1 of the specification:
  \<^verbatim>\<open>set\<close> assigns the value and returns whether it changed, and if it changed invokes
  \<^verbatim>\<open>emit\<close>; \<^verbatim>\<open>emit\<close> invokes every listener in registration order with the current value.
  The cell that \<^verbatim>\<open>createSignal\<close> returns has no listener and no own string-keyed property.
  Attached outputs are not part of this state.
\<close>

definition createSignal :: "sval \<Rightarrow> sstate \<Rightarrow> rid \<times> sstate" where
  "createSignal v st =
     (nextRid st,
      st\<lparr> reactives := (reactives st)(nextRid st :=
             \<lparr> rvalue = v, listeners = [], children = [], isStore = False \<rparr>),
          nextRid := Suc (nextRid st) \<rparr>)"

text \<open>
  Running the listener of line 137 with the value \<open>v\<close>: the write goes to the object that is
  the parent's underlying value at that moment; writing a property of anything else throws.
\<close>

fun run_listener :: "listener \<Rightarrow> sval \<Rightarrow> sstate \<Rightarrow> error + sstate" where
  "run_listener (WriteBack p k) v st =
     (case rvalue (reactives st p) of
        SRef a \<Rightarrow> Inr (st\<lparr> heap := (heap st)(a := setProp (heap st a) k v) \<rparr>)
      | _ \<Rightarrow> Inl TypeError)"

fun run_listeners :: "listener list \<Rightarrow> sval \<Rightarrow> sstate \<Rightarrow> (error + unit) \<times> sstate" where
  "run_listeners [] v st = (Inr (), st)"
| "run_listeners (l # ls) v st =
     (case run_listener l v st of
        Inl e \<Rightarrow> (Inl e, st)
      | Inr st1 \<Rightarrow> run_listeners ls v st1)"

definition emit :: "rid \<Rightarrow> sstate \<Rightarrow> (error + unit) \<times> sstate" where
  "emit r st =
     run_listeners (listeners (reactives st r)) (rvalue (reactives st r))
       (st\<lparr> emitted := emitted st @ [r] \<rparr>)"

definition signal_set :: "rid \<Rightarrow> sval \<Rightarrow> sstate \<Rightarrow> (error + bool) \<times> sstate" where
  "signal_set r v st =
     (let changed = (rvalue (reactives st r) \<noteq> v);
          st1 = upd_reactive r (\<lambda>c. c\<lparr> rvalue := v \<rparr>) st
      in if changed then
           (case emit r st1 of
              (Inl e, st2) \<Rightarrow> (Inl e, st2)
            | (Inr u, st2) \<Rightarrow> (Inr True, st2))
         else (Inr False, st1))"

text \<open>
  Modelled from the spec: the own string keys of \<^verbatim>\<open>signalPrototype\<close>, an object of the
  signal module, which is not part of the sources at hand. The specification names \<^verbatim>\<open>set\<close>
  as the method of a signal; \<^verbatim>\<open>$emit\<close> and the other internals are keyed by symbols.
\<close>

definition signalPrototype_keys :: "string list" where
  "signalPrototype_keys = [''set'']"

subsection \<open>\<^verbatim>\<open>storePrototype.set\<close>\<close>

text \<open>The argument of \<^verbatim>\<open>set\<close>: a value, or a function that is called with the current value.\<close>

datatype set_arg = Direct sval | Updater "sval \<Rightarrow> sstate \<Rightarrow> sval \<times> sstate"

text \<open>
  The first loop (lines 89-97) over the keys that \<^verbatim>\<open>for (const key in this)\<close> visits, with
  the flag \<^verbatim>\<open>hasChanged\<close> so far. \<open>cs\<close> is the \<^verbatim>\<open>set\<close> of a child; \<open>a\<close> is the object that
  is the new value. A key that is no longer a property when its turn comes is not visited.
  \<^verbatim>\<open>hasChanged ||= e\<close> evaluates \<open>e\<close> only while \<^verbatim>\<open>hasChanged\<close> is false.
\<close>

fun set_loop1 :: "(rid \<Rightarrow> sval \<Rightarrow> sstate \<Rightarrow> bool outcome) \<Rightarrow> rid \<Rightarrow> addr \<Rightarrow> string list \<Rightarrow> bool
    \<Rightarrow> sstate \<Rightarrow> bool outcome" where
  "set_loop1 cs r a [] hasChanged st = Some (Inr hasChanged, st)"
| "set_loop1 cs r a (key # keys) hasChanged st =
     (if key = ''set'' then set_loop1 cs r a keys hasChanged st
      else
        (case child st r key of
           None \<Rightarrow> set_loop1 cs r a keys hasChanged st
         | Some c \<Rightarrow>
             (if hasOwn (heap st a) key then
                (if hasChanged then set_loop1 cs r a keys hasChanged st
                 else
                   (case cs c (getProp (heap st a) key) st of
                      None \<Rightarrow> None
                    | Some (Inl e, st1) \<Rightarrow> Some (Inl e, st1)
                    | Some (Inr b, st1) \<Rightarrow> set_loop1 cs r a keys b st1))
              else
                set_loop1 cs r a keys True
                  (upd_reactive r (\<lambda>c. c\<lparr> children := AList.delete key (children c) \<rparr>) st))))"

text \<open>
  \<^verbatim>\<open>this[$value][key]\<close>: a property read on the current underlying value. Reading a property
  of null or undefined throws; a primitive has no such property.
\<close>

definition old_entry :: "sstate \<Rightarrow> rid \<Rightarrow> string \<Rightarrow> error + sval" where
  "old_entry st r key =
     (case rvalue (reactives st r) of
        SRef b \<Rightarrow> Inr (getProp (heap st b) key)
      | SNull \<Rightarrow> Inl TypeError
      | SUndefined \<Rightarrow> Inl TypeError
      | _ \<Rightarrow> Inr SUndefined)"

text \<open>The second loop (lines 98-104) over the keys that \<^verbatim>\<open>for (const key in value)\<close> visits.\<close>

fun set_loop2 :: "(rid \<Rightarrow> sval \<Rightarrow> sstate \<Rightarrow> bool outcome) \<Rightarrow> rid \<Rightarrow> addr \<Rightarrow> string list \<Rightarrow> bool
    \<Rightarrow> sstate \<Rightarrow> bool outcome" where
  "set_loop2 cs r a [] hasChanged st = Some (Inr hasChanged, st)"
| "set_loop2 cs r a (key # keys) hasChanged st =
     (if \<not> hasOwn (heap st a) key then set_loop2 cs r a keys hasChanged st
      else
        (case (case child st r key of
                 None \<Rightarrow> Some (Inr hasChanged, st)
               | Some c \<Rightarrow>
                   (if hasChanged then Some (Inr hasChanged, st)
                    else cs c (getProp (heap st a) key) st)) of
           None \<Rightarrow> None
         | Some (Inl e, st1) \<Rightarrow> Some (Inl e, st1)
         | Some (Inr b, st1) \<Rightarrow>
             (if b then set_loop2 cs r a keys b st1
              else
                (case old_entry st1 r key of
                   Inl e \<Rightarrow> Some (Inl e, st1)
                 | Inr old \<Rightarrow> set_loop2 cs r a keys (old \<noteq> getProp (heap st1 a) key) st1))))"

text \<open>
  The body of \<^verbatim>\<open>storePrototype.set\<close> (lines 83-108), with \<open>cs\<close> for the call
  \<^verbatim>\<open>this[key].set(v)\<close> into a child. The keys of the first loop are the own keys of the store
  object followed by the keys it inherits, \<^verbatim>\<open>set\<close> of \<^verbatim>\<open>storePrototype\<close> and those of
  \<^verbatim>\<open>signalPrototype\<close>, each once.
\<close>

definition set_body :: "(rid \<Rightarrow> sval \<Rightarrow> sstate \<Rightarrow> bool outcome) \<Rightarrow> rid \<Rightarrow> set_arg \<Rightarrow> sstate
    \<Rightarrow> bool outcome" where
  "set_body cs r arg st =
     (case (case arg of Updater f \<Rightarrow> f (rvalue (reactives st r)) st | Direct v \<Rightarrow> (v, st)) of
        (SRef a, st0) \<Rightarrow>
          (case set_loop1 cs r a
                  (enum_keys (map fst (children (reactives st0 r))) @ remdups (''set'' # signalPrototype_keys))
                  False st0 of
             None \<Rightarrow> None
           | Some (Inl e, st1) \<Rightarrow> Some (Inl e, st1)
           | Some (Inr h1, st1) \<Rightarrow>
               (case set_loop2 cs r a (enum_keys (map fst (props (heap st1 a)))) h1 st1 of
                  None \<Rightarrow> None
                | Some (Inl e, st2) \<Rightarrow> Some (Inl e, st2)
                | Some (Inr h2, st2) \<Rightarrow>
                    (let st3 = upd_reactive r (\<lambda>c. c\<lparr> rvalue := SRef a \<rparr>) st2 in
                     if h2 then
                       (case emit r st3 of
                          (Inl e, st4) \<Rightarrow> Some (Inl e, st4)
                        | (Inr u, st4) \<Rightarrow> Some (Inr True, st4))
                     else Some (Inr False, st3))))
      | (v, st0) \<Rightarrow> Some (Inl StoreValueError, st0))"

text \<open>
  \<^verbatim>\<open>storePrototype.set\<close>; the first argument bounds the depth of the calls into children.
  \<^verbatim>\<open>this[key].set(v)\<close> is the \<^verbatim>\<open>set\<close> of a store for a child store, of a signal for a child
  signal.
\<close>

fun store_set :: "nat \<Rightarrow> rid \<Rightarrow> set_arg \<Rightarrow> sstate \<Rightarrow> bool outcome" where
  "store_set 0 r arg st = None"
| "store_set (Suc n) r arg st =
     set_body (\<lambda>c v s. if isStore (reactives s c) then store_set n c (Direct v) s
                        else Some (signal_set c v s)) r arg st"

text \<open>\<^verbatim>\<open>this[key].set(v)\<close> with the depth \<open>n\<close> left for the call.\<close>

definition child_set :: "nat \<Rightarrow> rid \<Rightarrow> sval \<Rightarrow> sstate \<Rightarrow> bool outcome" where
  "child_set n c v s =
     (if isStore (reactives s c) then store_set n c (Direct v) s else Some (signal_set c v s))"

subsection \<open>\<^verbatim>\<open>createStore\<close> and the proxy handler\<close>

text \<open>\<^verbatim>\<open>createStore\<close> (lines 167-171).\<close>

definition createStore :: "sval \<Rightarrow> sstate \<Rightarrow> (error + rid) \<times> sstate" where
  "createStore init st =
     (case init of
        SRef a \<Rightarrow>
          (case createSignal init st of
             (r, st1) \<Rightarrow> (Inr r, upd_reactive r (\<lambda>c. c\<lparr> isStore := True \<rparr>) st1))
      | _ \<Rightarrow> (Inl StoreValueError, st))"

text \<open>
  What a property read through the proxy gives: a reactive cell, a method of the signal
  prototype bound to the target, or undefined.
\<close>

datatype got = Cell rid | Method string | Nothing

text \<open>
  \<^verbatim>\<open>handler.get\<close> (lines 113-142) for a string key. The operator \<^verbatim>\<open>in\<close> throws when the
  underlying value is not an object; the properties an object inherits are functions and so
  outside the value universe.
\<close>

definition handler_get :: "rid \<Rightarrow> string \<Rightarrow> sstate \<Rightarrow> (error + got) \<times> sstate" where
  "handler_get target prop st =
     (case child st target prop of
        Some c \<Rightarrow> (Inr (Cell c), st)
      | None \<Rightarrow>
          (if prop \<in> set signalPrototype_keys then (Inr (Method prop), st)
           else
             (case rvalue (reactives st target) of
                SRef a \<Rightarrow>
                  (if hasOwn (heap st a) prop then
                     (case getProp (heap st a) prop of
                        SRef b \<Rightarrow>
                          (case createStore (SRef b) st of
                             (Inl e, st1) \<Rightarrow> (Inl e, st1)
                           | (Inr c, st1) \<Rightarrow>
                               (Inr (Cell c),
                                upd_reactive target (\<lambda>t. t\<lparr> children := children t @ [(prop, c)] \<rparr>) st1))
                      | v \<Rightarrow>
                          (case createSignal v st of
                             (c, st1) \<Rightarrow>
                               (Inr (Cell c),
                                upd_reactive c (\<lambda>s. s\<lparr> listeners := [WriteBack target prop] \<rparr>)
                                  (upd_reactive target (\<lambda>t. t\<lparr> children := children t @ [(prop, c)] \<rparr>) st1))))
                   else (Inr Nothing, st))
              | _ \<Rightarrow> (Inl TypeError, st))))"

text \<open>The value assigned through the proxy: a plain value or a reactive cell.\<close>

datatype assigned = Plain sval | Reactive rid

text \<open>
  \<^verbatim>\<open>handler.set\<close> (lines 144-154) for a string key; the first argument bounds the depth of
  the call into the child.
\<close>

definition handler_set :: "nat \<Rightarrow> rid \<Rightarrow> string \<Rightarrow> assigned \<Rightarrow> sstate \<Rightarrow> bool outcome" where
  "handler_set n target prop x st =
     (case (case child st target prop of
              Some c \<Rightarrow>
                (case child_set n c (case x of Reactive s \<Rightarrow> rvalue (reactives st s) | Plain v \<Rightarrow> v) st of
                   None \<Rightarrow> None
                 | Some (Inl e, st1) \<Rightarrow> Some (Inl e, st1)
                 | Some (Inr b, st1) \<Rightarrow> Some (Inr (), st1))
            | None \<Rightarrow>
                (case x of
                   Reactive s \<Rightarrow>
                     Some (Inr (), upd_reactive target (\<lambda>t. t\<lparr> children := children t @ [(prop, s)] \<rparr>) st)
                 | Plain v \<Rightarrow>
                     (case createSignal v st of
                        (c, st1) \<Rightarrow>
                          Some (Inr (), upd_reactive target (\<lambda>t. t\<lparr> children := children t @ [(prop, c)] \<rparr>) st1)))) of
        None \<Rightarrow> None
      | Some (Inl e, st1) \<Rightarrow> Some (Inl e, st1)
      | Some (Inr u, st1) \<Rightarrow>
          (case emit target st1 of
             (Inl e, st2) \<Rightarrow> Some (Inl e, st2)
           | (Inr u, st2) \<Rightarrow> Some (Inr True, st2)))"

text \<open>An object literal: a new object with the given properties.\<close>

definition new_object :: "(string \<times> sval) list \<Rightarrow> sstate \<Rightarrow> addr \<times> sstate" where
  "new_object fs st =
     (nextAddr st,
      st\<lparr> heap := (heap st)(nextAddr st := \<lparr> props = fs, hidden = [] \<rparr>), nextAddr := Suc (nextAddr st) \<rparr>)"

text \<open>A state with no object and no reactive cell.\<close>

definition sstate0 :: sstate where
  "sstate0 = \<lparr> heap = (\<lambda>_. \<lparr> props = [], hidden = [] \<rparr>), nextAddr = 0,
     reactives = (\<lambda>_. \<lparr> rvalue = SUndefined, listeners = [], children = [], isStore = False \<rparr>),
     nextRid = 0, emitted = [] \<rparr>"


section \<open>Definitions used to state the properties\<close>

text \<open>A state with no node, for concrete runs.\<close>

definition dom0 :: dom where
  "dom0 = \<lparr> nodes = (\<lambda>_. blank ELEMENT_NODE []), nextNode = 0, nextArr = 0,
     attributeToProperty = [], trace = [] \<rparr>"

text \<open>
  The conversion as section 4.3 of the specification words it, as the list of what each
  produced node is: an empty marker, a text node with a given content, or a tree node that
  was passed in. Arrays convert element by element and the produced lists are concatenated; an
  empty result and null give one marker; a node passes through; any other object or a function
  is the error; every other value gives its string coercion as text.
\<close>

datatype item = Marker | TextOf string | Given nid

fun items :: "jsval \<Rightarrow> error + item list"
  and items_list :: "jsval list \<Rightarrow> error + item list" where
  "items (Arr a els) =
     (case items_list els of
        Inl e \<Rightarrow> Inl e
      | Inr xs \<Rightarrow> (if xs = [] then Inr [Marker] else Inr xs))"
| "items Null = Inr [Marker]"
| "items (NodeV n) = Inr [Given n]"
| "items Obj = Inl InvalidRenderable"
| "items Fun = Inl InvalidRenderable"
| "items v = Inr [TextOf (ToString v)]"
| "items_list [] = Inr []"
| "items_list (el # els) =
     (case items el of
        Inl e \<Rightarrow> Inl e
      | Inr xs \<Rightarrow> (case items_list els of Inl e \<Rightarrow> Inl e | Inr ys \<Rightarrow> Inr (xs @ ys)))"

text \<open>
  Node \<open>n\<close> of the state \<open>st'\<close> reached from \<open>st\<close> is what the item says: a marker is a
  detached comment node with empty text created since \<open>st\<close>, a text item a detached text
  node with that content created since \<open>st\<close>, a given node is that node.
\<close>

fun describes :: "dom \<Rightarrow> dom \<Rightarrow> nid \<Rightarrow> item \<Rightarrow> bool" where
  "describes st st' n Marker =
     (nextNode st \<le> n \<and> n < nextNode st' \<and> nodes st' n = blank COMMENT_NODE [])"
| "describes st st' n (TextOf s) =
     (nextNode st \<le> n \<and> n < nextNode st' \<and> nodes st' n = blank TEXT_NODE s)"
| "describes st st' n (Given m) = (n = m)"

text \<open>
  \<open>st'\<close> has the nodes of \<open>st\<close> unchanged, possibly new ones, and the same trace: nothing
  was inserted, removed or cleaned up.
\<close>

definition grows :: "dom \<Rightarrow> dom \<Rightarrow> bool" where
  "grows st st' =
     (nextNode st \<le> nextNode st' \<and> trace st' = trace st
      \<and> (\<forall>n. n < nextNode st \<longrightarrow> nodes st' n = nodes st n))"

fun nodes_of :: "rendered \<Rightarrow> nid list" where
  "nodes_of (One n) = [n]"
| "nodes_of (Many a ns) = ns"

text \<open>
  An element (node 0) with three text children (nodes 1, 2 and 3, reading a, b and c); one
  array object exists already, the list that holds the three.
\<close>

definition dom3 :: dom where
  "dom3 = \<lparr> nodes = (\<lambda>_. blank ELEMENT_NODE [])
      (1 := (blank TEXT_NODE ''a'')\<lparr> parentNode := Some 0 \<rparr>,
       2 := (blank TEXT_NODE ''b'')\<lparr> parentNode := Some 0 \<rparr>,
       3 := (blank TEXT_NODE ''c'')\<lparr> parentNode := Some 0 \<rparr>,
       0 := (blank ELEMENT_NODE [])\<lparr> childNodes := [1, 2, 3] \<rparr>),
     nextNode = 4, nextArr = 1, attributeToProperty = [], trace = [] \<rparr>"

text \<open>What a node is apart from its place in the tree: its type and its text.\<close>

definition content :: "dom \<Rightarrow> nid \<Rightarrow> ntype \<times> string" where
  "content st n = (nodeType (nodes st n), nodeValue (nodes st n))"

text \<open>
  The three steps of the list update as section 4.4 of the specification words them, over
  lists instead of indices: reconcile position by position with the single-node rule,
  collecting what each position became; remove the surplus old nodes; convert each surplus new
  element and insert it after the last node collected so far.
\<close>

fun update_each :: "(nid \<times> jsval) list \<Rightarrow> dom \<Rightarrow> (error + nid list) \<times> dom" where
  "update_each [] st = (Inr [], st)"
| "update_each ((n, v) # ps) st =
     (case updateOne n v st of
        (Inl e, st1) \<Rightarrow> (Inl e, st1)
      | (Inr r, st1) \<Rightarrow>
          (case update_each ps st1 of
             (Inl e, st2) \<Rightarrow> (Inl e, st2)
           | (Inr xs, st2) \<Rightarrow> (Inr (nodes_of r @ xs), st2)))"

fun insert_each :: "jsval list \<Rightarrow> nid list \<Rightarrow> dom \<Rightarrow> (error + nid list) \<times> dom" where
  "insert_each [] res st = (Inr res, st)"
| "insert_each (v # vs) res st =
     (case toNode v st of
        (Inl e, st1) \<Rightarrow> (Inl e, st1)
      | (Inr r, st1) \<Rightarrow>
          (if res = [] then (Inl TypeError, st1)
           else
             (case insertAfter r (last res) st1 of
                (Inl e, st2) \<Rightarrow> (Inl e, st2)
              | (Inr u, st2) \<Rightarrow> insert_each vs (res @ nodes_of r) st2)))"

definition reconcile :: "nid list \<Rightarrow> jsval list \<Rightarrow> dom \<Rightarrow> (error + rendered) \<times> dom" where
  "reconcile ns vs st =
     (let m = min (length vs) (length ns) in
      case update_each (zip (take m ns) (take m vs)) (st\<lparr> nextArr := Suc (nextArr st) \<rparr>) of
        (Inl e, st1) \<Rightarrow> (Inl e, st1)
      | (Inr res, st1) \<Rightarrow>
          (case insert_each (drop m vs) res (fold remove_from_parent (drop m ns) st1) of
             (Inl e, st2) \<Rightarrow> (Inl e, st2)
           | (Inr res', st2) \<Rightarrow> (Inr (Many (nextArr st) res'), st2)))"

text \<open>
  Node \<open>n\<close> is what \<^verbatim>\<open>toNode\<close> renders the value as: the node itself for a tree node, a
  comment node for null, a text node for a primitive. An array, which renders as several
  nodes or as a marker, and values that cannot be rendered are excluded.
\<close>

fun renders :: "dom \<Rightarrow> nid \<Rightarrow> jsval \<Rightarrow> bool" where
  "renders st n (NodeV m) = (n = m)"
| "renders st n Null = (nodeType (nodes st n) = COMMENT_NODE)"
| "renders st n (Arr a vs) = False"
| "renders st n Obj = False"
| "renders st n Fun = False"
| "renders st n v = (nodeType (nodes st n) = TEXT_NODE)"

text \<open>
  \<open>st'\<close> is \<open>st\<close> up to the text of its nodes: the same nodes with the same types,
  parents and children, and the same trace.
\<close>

definition retexted :: "dom \<Rightarrow> dom \<Rightarrow> bool" where
  "retexted st st' =
     (nextNode st' = nextNode st \<and> trace st' = trace st
      \<and> attributeToProperty st' = attributeToProperty st
      \<and> (\<forall>n. nodes st' n = (nodes st n)\<lparr> nodeValue := nodeValue (nodes st' n) \<rparr>))"


text \<open>
  The scenario of the write-propagation property: \<^verbatim>\<open>s = createStore({key: "value"})\<close>
  (the object at address 0, the store cell 0), \<^verbatim>\<open>t = s.key\<close> (the cell 1), and the object
  \<^verbatim>\<open>{key: "baz"}\<close> (address 1) that \<^verbatim>\<open>s.set\<close> will receive.
\<close>

definition key1 :: sstate where
  "key1 = snd (new_object [(''key'', SStr ''value'')] sstate0)"

definition key2 :: sstate where
  "key2 = snd (createStore (SRef 0) key1)"

definition key3 :: sstate where
  "key3 = snd (handler_get 0 ''key'' key2)"

definition key4 :: sstate where
  "key4 = snd (new_object [(''key'', SStr ''baz'')] key3)"

text \<open>
  The same with two keys: \<^verbatim>\<open>s = createStore({a: "x", b: "y"})\<close> (address 0, cell 0),
  \<^verbatim>\<open>ta = s.a\<close> (cell 1), \<^verbatim>\<open>tb = s.b\<close> (cell 2), and the object \<^verbatim>\<open>{a: "x2", b: "y2"}\<close>
  (address 1).
\<close>

definition ab1 :: sstate where
  "ab1 = snd (new_object [(''a'', SStr ''x''), (''b'', SStr ''y'')] sstate0)"

definition ab2 :: sstate where
  "ab2 = snd (createStore (SRef 0) ab1)"

definition ab3 :: sstate where
  "ab3 = snd (handler_get 0 ''a'' ab2)"

definition ab4 :: sstate where
  "ab4 = snd (handler_get 0 ''b'' ab3)"

definition ab5 :: sstate where
  "ab5 = snd (new_object [(''a'', SStr ''x2''), (''b'', SStr ''y2'')] ab4)"

text \<open>
  The invariant of section 3 of the specification for the store \<open>r\<close>: for every materialized
  child keyed \<open>k\<close>, the entry \<open>k\<close> of the store's underlying value is the child's value.
\<close>

definition consistent :: "sstate \<Rightarrow> rid \<Rightarrow> bool" where
  "consistent st r =
     (case rvalue (reactives st r) of
        SRef a \<Rightarrow> list_all (\<lambda>(k, c). getProp (heap st a) k = rvalue (reactives st c))
                    (children (reactives st r))
      | _ \<Rightarrow> False)"


section \<open>Value to node conversion\<close>

lemma grows_refl: "grows st st"
  by (simp add: grows_def)

lemma grows_trans: "grows a b \<Longrightarrow> grows b c \<Longrightarrow> grows a c"
  by (auto simp: grows_def)

lemma describes_mono:
  "describes b c n x \<Longrightarrow> grows a b \<Longrightarrow> grows c d \<Longrightarrow> describes a d n x"
  by (cases x) (auto simp: grows_def)

lemma newNode_grows: "newNode t s st = (n, st') \<Longrightarrow> grows st st' \<and> n = nextNode st \<and> nextNode st' = Suc n \<and> nodes st' n = blank t s"
  by (auto simp: newNode_def grows_def)

lemma toNode_items:
  "(case items v of
      Inl e \<Rightarrow> fst (toNode v st) = Inl InvalidRenderable
    | Inr xs \<Rightarrow> (\<exists>r. fst (toNode v st) = Inr r \<and> list_all2 (describes st (snd (toNode v st))) (nodes_of r) xs))
   \<and> grows st (snd (toNode v st))"
  "(case items_list els of
      Inl e \<Rightarrow> fst (toNode_loop els res st) = Inl InvalidRenderable
    | Inr xs \<Rightarrow> (\<exists>ns. fst (toNode_loop els res st) = Inr (res @ ns) \<and> list_all2 (describes st (snd (toNode_loop els res st))) ns xs))
   \<and> grows st (snd (toNode_loop els res st))"
proof (induction v st and els res st rule: toNode_toNode_loop.induct)
  case (1 a els st)
  define st0 where "st0 = st\<lparr> nextArr := Suc (nextArr st) \<rparr>"
  obtain out st1 where run: "toNode_loop els [] st0 = (out, st1)"
    by (cases "toNode_loop els [] st0")
  have g0: "grows st st0" "nextNode st0 = nextNode st"
    by (simp_all add: grows_def st0_def)
  have IH: "(case items_list els of
      Inl e \<Rightarrow> out = Inl InvalidRenderable
    | Inr xs \<Rightarrow> (\<exists>ns. out = Inr ns \<and> list_all2 (describes st0 st1) ns xs))
   \<and> grows st0 st1"
    using "1.IH"[OF refl refl, folded st0_def] run by (simp split: sum.splits)
  show ?case
  proof (cases "items_list els")
    case (Inl e)
    with IH run g0 show ?thesis
      by (auto simp: Let_def st0_def[symmetric] intro: grows_trans)
  next
    case (Inr xs)
    with IH obtain ns where ns: "out = Inr ns" "list_all2 (describes st0 st1) ns xs" and g1: "grows st0 st1"
      by auto
    have len: "length ns = length xs" using ns(2) by (rule list_all2_lengthD)
    show ?thesis
    proof (cases "xs = []")
      case True
      obtain c st2 where nc: "newComment [] st1 = (c, st2)" by (cases "newComment [] st1")
      from nc have "newNode COMMENT_NODE [] st1 = (c, st2)" by (simp add: newComment_def)
      from newNode_grows[OF this]
      have c: "grows st1 st2" "c = nextNode st1" "nextNode st2 = Suc c" "nodes st2 c = blank COMMENT_NODE []"
        by blast+
      have "nextNode st \<le> c" using c(2) g0 g1 by (simp add: grows_def)
      with True Inr ns len run nc c g0 g1 show ?thesis
        by (auto simp: Let_def st0_def[symmetric] intro: grows_trans)
    next
      case False
      have d: "list_all2 (describes st st1) ns xs"
        using ns(2) g0(1) by (auto elim!: list_all2_mono intro: describes_mono grows_refl)
      with False Inr ns len run g0 g1 show ?thesis
        by (auto simp: Let_def st0_def[symmetric] intro: grows_trans)
    qed
  qed
next
  case (8 el els res st)
  obtain out st1 where run: "toNode el st = (out, st1)"
    by (cases "toNode el st")
  have IH1: "(case items el of
      Inl e \<Rightarrow> out = Inl InvalidRenderable
    | Inr xs \<Rightarrow> (\<exists>r. out = Inr r \<and> list_all2 (describes st st1) (nodes_of r) xs))
   \<and> grows st st1"
    using "8.IH"(1) run by (simp split: sum.splits)
  show ?case
  proof (cases "items el")
    case (Inl e)
    with IH1 run show ?thesis by auto
  next
    case (Inr xs)
    with IH1 obtain r where r: "out = Inr r" "list_all2 (describes st st1) (nodes_of r) xs" and g1: "grows st st1"
      by auto
    define res' where "res' = res @ nodes_of r"
    have step: "toNode_loop (el # els) res st = toNode_loop els res' st1"
      using run r(1) by (cases r) (simp_all add: res'_def)
    obtain out2 st2 where run2: "toNode_loop els res' st1 = (out2, st2)"
      by (cases "toNode_loop els res' st1")
    have IH2: "(case items_list els of
        Inl e \<Rightarrow> out2 = Inl InvalidRenderable
      | Inr ys \<Rightarrow> (\<exists>ns. out2 = Inr (res' @ ns) \<and> list_all2 (describes st1 st2) ns ys))
     \<and> grows st1 st2"
    proof (cases r)
      case (One n)
      then show ?thesis using "8.IH"(2)[OF run[symmetric] r(1) One] run2
        by (simp add: res'_def split: sum.splits)
    next
      case (Many a ns)
      then show ?thesis using "8.IH"(3)[OF run[symmetric] r(1) Many] run2
        by (simp add: res'_def split: sum.splits)
    qed
    have g: "grows st st2" using g1 IH2 by (auto intro: grows_trans)
    show ?thesis
    proof (cases "items_list els")
      case (Inl e)
      with IH2 Inr step run2 g show ?thesis by auto
    next
      case (Inr ys) note ys = this
      with IH2 obtain ns where ns: "out2 = Inr (res' @ ns)" "list_all2 (describes st1 st2) ns ys"
        by auto
      have a: "list_all2 (describes st st2) (nodes_of r) xs"
        using r(2) IH2 by (auto elim!: list_all2_mono intro: describes_mono grows_refl)
      have b: "list_all2 (describes st st2) ns ys"
        using ns(2) g1 by (auto elim!: list_all2_mono intro: describes_mono grows_refl)
      have "list_all2 (describes st st2) (nodes_of r @ ns) (xs @ ys)"
        using a b by (rule list_all2_appendI)
      with \<open>items el = Inr xs\<close> ys step run2 ns(1) g show ?thesis
        by (auto simp: res'_def)
    qed
  qed
qed (auto simp: newComment_def newText_def newNode_def grows_def)

lemma items_nonempty:
  "items v = Inr xs \<Longrightarrow> xs \<noteq> []"
  by (cases v) (auto split: sum.splits if_splits)

lemma items_error: "items v = Inl e \<Longrightarrow> e = InvalidRenderable"
  "items_list vs = Inl e \<Longrightarrow> e = InvalidRenderable"
  by (induction v and vs arbitrary: e and e rule: items_items_list.induct) (auto split: sum.splits if_splits)

text \<open>
  Claim C7. \<^verbatim>\<open>toNode\<close> follows the case analysis of the specification for every value: it
  throws exactly when the specification's conversion is an error, and that error is
  InvalidRenderable; otherwise it returns a node or a list that is never empty, whose nodes
  are, in order, what the specification's flattened conversion lists (fresh empty comment
  nodes for markers, fresh text nodes holding the string coercion, passed-in nodes
  themselves), and it leaves every existing node and the trace as they were. In particular the
  empty array and null give a single fresh node described as a marker, a tree node is returned
  unchanged in an unchanged state, a plain object and a function throw in an unchanged state,
  and every value whose \<^verbatim>\<open>typeof\<close> is neither object nor function gives a single text node.
\<close>

theorem toNode_case_analysis:
  "(case items v of
      Inl e \<Rightarrow> e = InvalidRenderable \<and> fst (toNode v st) = Inl InvalidRenderable
    | Inr xs \<Rightarrow>
        xs \<noteq> [] \<and>
        (\<exists>r. fst (toNode v st) = Inr r \<and> nodes_of r \<noteq> []
             \<and> list_all2 (describes st (snd (toNode v st))) (nodes_of r) xs))
   \<and> grows st (snd (toNode v st))
   \<and> items (Arr a []) = Inr [Marker] \<and> fst (toNode (Arr a []) st) = Inr (One (nextNode st))
   \<and> items Null = Inr [Marker] \<and> fst (toNode Null st) = Inr (One (nextNode st))
   \<and> toNode (NodeV n) st = (Inr (One n), st)
   \<and> toNode Obj st = (Inl InvalidRenderable, st)
   \<and> toNode Fun st = (Inl InvalidRenderable, st)
   \<and> (typeof v \<noteq> ''object'' \<and> typeof v \<noteq> ''function''
        \<longrightarrow> items v = Inr [TextOf (ToString v)] \<and> fst (toNode v st) = Inr (One (nextNode st)))"
proof -
  have main: "(case items v of
      Inl e \<Rightarrow> e = InvalidRenderable \<and> fst (toNode v st) = Inl InvalidRenderable
    | Inr xs \<Rightarrow>
        xs \<noteq> [] \<and>
        (\<exists>r. fst (toNode v st) = Inr r \<and> nodes_of r \<noteq> []
             \<and> list_all2 (describes st (snd (toNode v st))) (nodes_of r) xs))"
  proof (cases "items v")
    case (Inl e)
    with toNode_items(1)[of v st] items_error(1)[OF Inl] show ?thesis by simp
  next
    case (Inr xs)
    with toNode_items(1)[of v st] obtain r where
      r: "fst (toNode v st) = Inr r" "list_all2 (describes st (snd (toNode v st))) (nodes_of r) xs"
      by auto
    have "xs \<noteq> []" using Inr by (rule items_nonempty)
    moreover have "nodes_of r \<noteq> []" using r(2) \<open>xs \<noteq> []\<close> by (auto dest: list_all2_lengthD)
    ultimately show ?thesis using Inr r by auto
  qed
  have prim: "typeof v \<noteq> ''object'' \<and> typeof v \<noteq> ''function''
        \<longrightarrow> items v = Inr [TextOf (ToString v)] \<and> fst (toNode v st) = Inr (One (nextNode st))"
    by (cases v) (simp_all add: newText_def newNode_def)
  have empty: "fst (toNode (Arr a []) st) = Inr (One (nextNode st))"
    "fst (toNode Null st) = Inr (One (nextNode st))"
    by (simp_all add: newComment_def newNode_def)
  show ?thesis
    using main prim empty toNode_items(1)[of v st] by simp
qed

theorem toNode_case_analysis_witness:
  "typeof (Str ''q'') \<noteq> ''object'' \<and> typeof (Str ''q'') \<noteq> ''function''
   \<and> items (Str ''q'') = Inr [TextOf ''q'']
   \<and> fst (toNode (Str ''q'') dom0) = Inr (One 0)
   \<and> list_all2 (describes dom0 (snd (toNode (Str ''q'') dom0))) [0] [TextOf ''q'']
   \<and> items (Arr 0 [Arr 1 [], Str ''q'', Null, Arr 2 [Bool True, NodeV 7]])
       = Inr [Marker, TextOf ''q'', Marker, TextOf ''true'', Given 7]
   \<and> fst (toNode (Arr 0 [Arr 1 [], Str ''q'', Null, Arr 2 [Bool True, NodeV 7]]) dom0)
       = Inr (Many 0 [0, 1, 2, 3, 7])"
  using toNode_case_analysis [of "Str ''q''" dom0 0 0]
    toNode_case_analysis [of "Arr 0 [Arr 1 [], Str ''q'', Null, Arr 2 [Bool True, NodeV 7]]" dom0 0 0]
  by (simp add: dom0_def newText_def newComment_def newNode_def)

section \<open>The trace of host calls and cleanups\<close>

lemma trace_detach [simp]: "trace (detach n st) = trace st"
  by (simp add: detach_def Let_def split: option.splits)

lemma trace_fold_detach [simp]: "trace (fold detach xs st) = trace st"
  by (induction xs arbitrary: st) simp_all

lemma trace_set_parent [simp]: "trace (set_parent p n st) = trace st"
  by (simp add: set_parent_def)

lemma trace_fold_set_parent [simp]: "trace (fold (set_parent p) xs st) = trace st"
  by (induction xs arbitrary: st) simp_all

lemma trace_place [simp]: "trace (place p n r st) = trace st"
  by (simp add: place_def Let_def)

lemma trace_insertBefore:
  "insertBefore p n r st = Inr st' \<Longrightarrow> trace st' = trace st @ [InsertBefore p n r]"
  by (auto simp: insertBefore_def Let_def split: if_splits)

lemma trace_replaceChild:
  "replaceChild p n old st = Inr st' \<Longrightarrow> trace st' = trace st @ [ReplaceChild p n old]"
  by (auto simp: replaceChild_def Let_def split: if_splits)

lemma trace_removeChild:
  "removeChild p n st = Inr st' \<Longrightarrow> trace st' = trace st @ [RemoveChild p n]"
  by (auto simp: removeChild_def Let_def split: if_splits)

lemma trace_replace_in_parent:
  "replace_in_parent n old st = Inr st' \<Longrightarrow>
     trace st' = trace st @ (case parent_of st old of None \<Rightarrow> [] | Some p \<Rightarrow> [ReplaceChild p n old])"
  by (auto simp: replace_in_parent_def split: option.splits dest: trace_replaceChild)

lemma trace_replaceNode_loop:
  "replaceNode_loop rest lst old st = (Inr u, st') \<Longrightarrow>
     \<exists>ins. trace st' = trace st @ ins \<and> (\<forall>e\<in>set ins. \<exists>p c. e = InsertBefore p c (Some lst))"
proof (induction rest arbitrary: st)
  case Nil
  then show ?case by simp
next
  case (Cons child rest)
  show ?case
  proof (cases "parent_of st old")
    case None
    with Cons show ?thesis by simp
  next
    case (Some p)
    with Cons.prems obtain st1 where st1: "insertBefore p child (Some lst) st = Inr st1"
      and run: "replaceNode_loop rest lst old st1 = (Inr u, st')"
      by (auto split: sum.splits)
    from Cons.IH[OF run] obtain ins where
      ins: "trace st' = trace st1 @ ins" "\<forall>e\<in>set ins. \<exists>p c. e = InsertBefore p c (Some lst)"
      by blast
    have "trace st' = trace st @ (InsertBefore p child (Some lst) # ins)"
      using ins(1) trace_insertBefore[OF st1] by simp
    moreover have "\<forall>e\<in>set (InsertBefore p child (Some lst) # ins). \<exists>p c. e = InsertBefore p c (Some lst)"
      using ins(2) by simp
    ultimately show ?thesis by blast
  qed
qed


text \<open>
  Claim C4, as amended. Whenever \<^verbatim>\<open>replaceNode\<close> returns, the events it added to the trace
  are: the host's \<^verbatim>\<open>replaceChild\<close> that swaps the new node (for a list, its last node) in
  for the old one, when the old node had a parent; then exactly one \<^verbatim>\<open>cleanup\<close> of the old
  node; then only insertions of further new nodes before that last node. The cleanup thus
  follows the insertion of the (last) new node.
\<close>

theorem replaceNode_cleanup_once:
  assumes "replaceNode r old st = (Inr r', st')"
  shows "\<exists>ins. trace st' =
             trace st
             @ (case parent_of st old of None \<Rightarrow> [] | Some p \<Rightarrow> [ReplaceChild p (last (nodes_of r)) old])
             @ [Cleanup old] @ ins
           \<and> (\<forall>e\<in>set ins. \<exists>p c. e = InsertBefore p c (Some (last (nodes_of r))))"
proof (cases r)
  case (One n)
  with assms obtain st1 where st1: "replace_in_parent n old st = Inr st1" and st': "st' = cleanup old st1"
    by (auto split: sum.splits)
  from trace_replace_in_parent[OF st1] st' show ?thesis
    unfolding One by (auto simp: cleanup_def split: option.splits)
next
  case (Many a ns)
  with assms have ne: "ns \<noteq> []" by (auto split: if_splits)
  with assms Many obtain st1 u where st1: "replace_in_parent (last ns) old st = Inr st1"
    and run: "replaceNode_loop (butlast ns) (last ns) old (cleanup old st1) = (Inr u, st')"
    by (auto simp: Let_def split: sum.splits prod.splits)
  from trace_replaceNode_loop[OF run] obtain ins where
    ins: "trace st' = trace (cleanup old st1) @ ins"
      "\<forall>e\<in>set ins. \<exists>p c. e = InsertBefore p c (Some (last ns))"
    by blast
  from ins trace_replace_in_parent[OF st1] show ?thesis
    unfolding Many by (auto simp: cleanup_def split: option.splits)
qed

theorem replaceNode_cleanup_once_witness:
  "fst (replaceNode (One 7) 2 dom3) = Inr (One 7)
   \<and> (\<exists>ins. trace (snd (replaceNode (One 7) 2 dom3)) = [ReplaceChild 0 7 2, Cleanup 2] @ ins)"
proof -
  have a: "fst (replaceNode (One 7) 2 dom3) = Inr (One 7)"
    by code_simp
  have b: "parent_of dom3 2 = Some 0" "trace dom3 = []"
    by code_simp+
  from a have "replaceNode (One 7) 2 dom3 = (Inr (One 7), snd (replaceNode (One 7) 2 dom3))"
    by (metis prod.collapse)
  from replaceNode_cleanup_once [OF this] a b show ?thesis
    by auto
qed


text \<open>
  Claim C4 as stated fails. Replacing the text node 2 of \<open>dom3\<close> by the conversion of null
  puts the new node 4 into the tree first and calls the cleanup of node 2 afterwards; and
  shrinking the list of three nodes to one removes nodes 2 and 3 with no cleanup at all.
\<close>

theorem cleanup_order_counterexample:
  "trace (snd (updateOne 2 Null dom3)) = [ReplaceChild 0 4 2, Cleanup 2]
   \<and> children_of (snd (updateOne 2 Null dom3)) 0 = [1, 4, 3]
   \<and> fst (updateMany 0 [1, 2, 3] (Arr 5 [Str ''a'']) dom3) = Inr (Many 1 [1])
   \<and> trace (snd (updateMany 0 [1, 2, 3] (Arr 5 [Str ''a'']) dom3)) = [RemoveChild 0 2, RemoveChild 0 3]"
  by code_simp

section \<open>Updating a node list\<close>

text \<open>
  Claim C10. When the first node of the list has no parent and the new value is not an array,
  \<^verbatim>\<open>updateMany\<close> returns the list without its first node and leaves the state exactly as
  it was: nothing is converted, replaced, removed or cleaned up. A one-element list gives the
  empty list.
\<close>

theorem updateMany_detached_first:
  "parent_of st first = None \<Longrightarrow> \<not> isArray v \<Longrightarrow>
     updateMany a (first # rest) v st = (Inr (Many a rest), st)
     \<and> updateMany a [first] v st = (Inr (Many a []), st)"
  by (cases v) (simp_all add: updateMany_def)

theorem updateMany_detached_first_witness:
  "parent_of dom3 7 = None \<and> \<not> isArray (Str ''x'')
   \<and> updateMany 0 [7, 2, 3] (Str ''x'') dom3 = (Inr (Many 0 [2, 3]), dom3)
   \<and> updateMany 0 [7] (Str ''x'') dom3 = (Inr (Many 0 []), dom3)"
  using updateMany_detached_first [of dom3 7 "Str ''x''" 0 "[2, 3]"]
    updateMany_detached_first [of dom3 7 "Str ''x''" 0 "[]"]
  by (simp add: dom3_def parent_of_def blank_def)


lemma content_detach [simp]: "content (detach n st) k = content st k"
  by (simp add: detach_def content_def Let_def parent_of_def split: option.splits)

lemma nextNode_detach [simp]: "nextNode (detach n st) = nextNode st"
  by (simp add: detach_def Let_def split: option.splits)

lemma content_fold_detach [simp]: "content (fold detach xs st) k = content st k"
  by (induction xs arbitrary: st) simp_all

lemma nextNode_fold_detach [simp]: "nextNode (fold detach xs st) = nextNode st"
  by (induction xs arbitrary: st) simp_all

lemma content_set_parent [simp]: "content (set_parent p n st) k = content st k"
  by (simp add: set_parent_def content_def)

lemma nextNode_set_parent [simp]: "nextNode (set_parent p n st) = nextNode st"
  by (simp add: set_parent_def)

lemma content_fold_set_parent [simp]: "content (fold (set_parent p) xs st) k = content st k"
  by (induction xs arbitrary: st) simp_all

lemma nextNode_fold_set_parent [simp]: "nextNode (fold (set_parent p) xs st) = nextNode st"
  by (induction xs arbitrary: st) simp_all

lemma content_upd_children [simp]:
  "content (st\<lparr> nodes := (nodes st)(p := (nodes st p)\<lparr> childNodes := cs \<rparr>) \<rparr>) k = content st k"
  by (simp add: content_def)

lemma content_trace_upd [simp]: "content (st\<lparr> trace := t \<rparr>) k = content st k"
  by (simp add: content_def)

lemma content_place [simp]: "content (place p n r st) k = content st k"
  by (simp add: place_def Let_def)

lemma nextNode_place [simp]: "nextNode (place p n r st) = nextNode st"
  by (simp add: place_def Let_def)

lemma keep_replaceChild:
  "replaceChild p n old st = Inr st' \<Longrightarrow> content st' k = content st k \<and> nextNode st' = nextNode st"
  by (auto simp: replaceChild_def Let_def split: if_splits)

lemma keep_removeChild:
  "removeChild p n st = Inr st' \<Longrightarrow> content st' k = content st k \<and> nextNode st' = nextNode st"
  by (auto simp: removeChild_def Let_def split: if_splits)

lemma parent_removeChild:
  "removeChild p n st = Inr st' \<Longrightarrow> k \<noteq> n \<Longrightarrow> parent_of st' k = parent_of st k"
  by (auto simp: removeChild_def detach_def Let_def parent_of_def split: if_splits option.splits)

lemma collapse_loop_effect:
  "collapse_loop rest p st = (Inr u, st') \<Longrightarrow>
     trace st' = trace st @ map (RemoveChild p) rest
     \<and> nextNode st' = nextNode st
     \<and> (\<forall>k. content st' k = content st k)
     \<and> (\<forall>k. k \<notin> set rest \<longrightarrow> parent_of st' k = parent_of st k)"
proof (induction rest arbitrary: st)
  case Nil
  then show ?case by simp
next
  case (Cons n rest)
  from Cons.prems obtain st1 where st1: "removeChild p n st = Inr st1"
    and run: "collapse_loop rest p st1 = (Inr u, st')"
    by (auto split: sum.splits)
  from Cons.IH[OF run] keep_removeChild[OF st1] trace_removeChild[OF st1] parent_removeChild[OF st1]
  show ?case by auto
qed

lemma toNode_single:
  "\<not> isArray v \<Longrightarrow> toNode v st = (Inr r, st') \<Longrightarrow>
     grows st st' \<and>
     (\<exists>n. r = One n
        \<and> (case v of NodeV m \<Rightarrow> n = m \<and> st' = st
            | Null \<Rightarrow> n = nextNode st \<and> nextNode st' = Suc n \<and> content st' n = (COMMENT_NODE, [])
            | _ \<Rightarrow> n = nextNode st \<and> nextNode st' = Suc n \<and> content st' n = (TEXT_NODE, ToString v)))"
  by (cases v) (auto simp: newText_def newComment_def newNode_def grows_def content_def blank_def)

lemma grows_content: "grows st st' \<Longrightarrow> k < nextNode st \<Longrightarrow> content st' k = content st k"
  by (simp add: grows_def content_def)

lemma replaceNode_One_effect:
  "replaceNode (One n) old st = (Inr r, st') \<Longrightarrow> parent_of st old = Some p \<Longrightarrow>
     r = One n \<and> trace st' = trace st @ [ReplaceChild p n old, Cleanup old]
     \<and> (\<forall>k. content st' k = content st k)"
  by (auto simp: replace_in_parent_def cleanup_def split: sum.splits dest: trace_replaceChild keep_replaceChild)

lemma updateMany_nonarray:
  "\<not> isArray v \<Longrightarrow>
     updateMany a ns v st =
       (case ns of
          [] \<Rightarrow> (Inl TypeError, st)
        | first # rest \<Rightarrow>
            (case parent_of st first of
               None \<Rightarrow> (Inr (Many a rest), st)
             | Some parent \<Rightarrow>
                 (case collapse_loop rest parent st of
                    (Inl e, st1) \<Rightarrow> (Inl e, st1)
                  | (Inr u, st1) \<Rightarrow> replace_with v first st1)))"
  by (cases v; clarsimp simp: updateMany_def)

text \<open>
  Claim C6, as amended. For a list whose first node has a parent \<open>p\<close>, exists, and does not
  occur again in the list, and a new value that is not an array: \<^verbatim>\<open>updateMany\<close> first
  removes the remaining nodes from \<open>p\<close>, then converts the value with \<^verbatim>\<open>toNode\<close> and
  replaces the first node by the result with \<^verbatim>\<open>replaceNode\<close>. Whenever it returns, the result
  is a single node, the trace has grown by the removals, the replacement and one cleanup of the
  first node, and the first node's own type and text are untouched; for a value whose
  \<^verbatim>\<open>typeof\<close> is neither object nor function the result is a newly created text node holding
  the string coercion of the value, not the first node.
\<close>

theorem updateMany_scalar_replaces:
  assumes att: "parent_of st first = Some p" and na: "\<not> isArray v"
    and fr: "first \<notin> set rest" and ex: "first < nextNode st"
  shows "updateMany a (first # rest) v st =
           (case collapse_loop rest p st of
              (Inl e, st1) \<Rightarrow> (Inl e, st1)
            | (Inr u, st1) \<Rightarrow>
                (case toNode v st1 of
                   (Inl e, st2) \<Rightarrow> (Inl e, st2)
                 | (Inr r, st2) \<Rightarrow> replaceNode r first st2))
         \<and> (\<forall>r st'. updateMany a (first # rest) v st = (Inr r, st') \<longrightarrow>
               (\<exists>n. r = One n
                  \<and> trace st' = trace st @ map (RemoveChild p) rest @ [ReplaceChild p n first, Cleanup first]
                  \<and> content st' first = content st first
                  \<and> (typeof v \<noteq> ''object'' \<and> typeof v \<noteq> ''function'' \<longrightarrow>
                        n = nextNode st \<and> n \<noteq> first \<and> content st' n = (TEXT_NODE, ToString v))))"
proof -
  have eq: "updateMany a (first # rest) v st =
           (case collapse_loop rest p st of
              (Inl e, st1) \<Rightarrow> (Inl e, st1)
            | (Inr u, st1) \<Rightarrow>
                (case toNode v st1 of
                   (Inl e, st2) \<Rightarrow> (Inl e, st2)
                 | (Inr r, st2) \<Rightarrow> replaceNode r first st2))"
    using att unfolding updateMany_nonarray[OF na] replace_with_def by simp
  have post: "\<exists>n. r = One n
                  \<and> trace st' = trace st @ map (RemoveChild p) rest @ [ReplaceChild p n first, Cleanup first]
                  \<and> content st' first = content st first
                  \<and> (typeof v \<noteq> ''object'' \<and> typeof v \<noteq> ''function'' \<longrightarrow>
                        n = nextNode st \<and> n \<noteq> first \<and> content st' n = (TEXT_NODE, ToString v))"
    if run: "updateMany a (first # rest) v st = (Inr r, st')" for r st'
  proof -
    from run eq obtain u st1 r1 st2 where
      c: "collapse_loop rest p st = (Inr u, st1)" and t: "toNode v st1 = (Inr r1, st2)"
      and rp: "replaceNode r1 first st2 = (Inr r, st')"
      by (auto split: prod.splits sum.splits)
    note ce = collapse_loop_effect[OF c]
    from toNode_single[OF na t] obtain n where g: "grows st1 st2" and r1: "r1 = One n"
      and shape: "(case v of NodeV m \<Rightarrow> n = m \<and> st2 = st1
            | Null \<Rightarrow> n = nextNode st1 \<and> nextNode st2 = Suc n \<and> content st2 n = (COMMENT_NODE, [])
            | _ \<Rightarrow> n = nextNode st1 \<and> nextNode st2 = Suc n \<and> content st2 n = (TEXT_NODE, ToString v))"
      by blast
    have p1: "parent_of st1 first = Some p" using ce fr att by simp
    have ex1: "first < nextNode st1" using ce ex by simp
    have p2: "parent_of st2 first = Some p"
      using g ex1 p1 by (simp add: grows_def parent_of_def)
    note re = replaceNode_One_effect[OF rp[unfolded r1] p2]
    have tr: "trace st' = trace st @ map (RemoveChild p) rest @ [ReplaceChild p n first, Cleanup first]"
      using re ce g by (simp add: grows_def)
    have cf: "content st' first = content st first"
      using re ce grows_content[OF g ex1] by simp
    have prim: "n = nextNode st \<and> n \<noteq> first \<and> content st' n = (TEXT_NODE, ToString v)"
      if "typeof v \<noteq> ''object'' \<and> typeof v \<noteq> ''function''"
      using that shape re ce ex by (cases v) auto
    from re tr cf prim show ?thesis by blast
  qed
  from eq post show ?thesis by blast
qed


theorem updateMany_scalar_replaces_witness:
  "parent_of dom3 1 = Some 0 \<and> \<not> isArray (Str ''x'') \<and> 1 \<notin> set [2, 3::nat] \<and> 1 < nextNode dom3
   \<and> fst (updateMany 0 [1, 2, 3] (Str ''x'') dom3) = Inr (One 4)
   \<and> trace (snd (updateMany 0 [1, 2, 3] (Str ''x'') dom3))
       = [RemoveChild 0 2, RemoveChild 0 3, ReplaceChild 0 4 1, Cleanup 1]
   \<and> content (snd (updateMany 0 [1, 2, 3] (Str ''x'') dom3)) 1 = (TEXT_NODE, ''a'')
   \<and> content (snd (updateMany 0 [1, 2, 3] (Str ''x'') dom3)) 4 = (TEXT_NODE, ''x'')"
proof -
  define res where "res = snd (updateMany 0 [1, 2, 3] (Str ''x'') dom3)"
  have h: "parent_of dom3 1 = Some 0" "\<not> isArray (Str ''x'')" "1 \<notin> set [2, 3::nat]" "1 < nextNode dom3"
    by code_simp+
  have a: "fst (updateMany 0 [1, 2, 3] (Str ''x'') dom3) = Inr (One 4)"
    by code_simp
  have b: "trace dom3 = []" "content dom3 1 = (TEXT_NODE, ''a'')" "nextNode dom3 = 4"
    by code_simp+
  have ty: "typeof (Str ''x'') \<noteq> ''object'' \<and> typeof (Str ''x'') \<noteq> ''function''"
    by simp
  from a have run: "updateMany 0 [1, 2, 3] (Str ''x'') dom3 = (Inr (One 4), res)"
    unfolding res_def by (metis prod.collapse)
  from updateMany_scalar_replaces [OF h, of 0, THEN conjunct2, rule_format, OF run]
  obtain n where n: "One 4 = One n"
    "trace res = trace dom3 @ map (RemoveChild 0) [2, 3] @ [ReplaceChild 0 n 1, Cleanup 1]"
    "content res 1 = content dom3 1"
    "typeof (Str ''x'') \<noteq> ''object'' \<and> typeof (Str ''x'') \<noteq> ''function'' \<longrightarrow>
       n = nextNode dom3 \<and> n \<noteq> 1 \<and> content res n = (TEXT_NODE, ToString (Str ''x''))"
    by blast
  from n(1) have n4: "n = 4" by simp
  from n(4) ty have c4: "content res 4 = (TEXT_NODE, ''x'')" unfolding n4 by simp
  from n(2) b(1) have tr: "trace res = [RemoveChild 0 2, RemoveChild 0 3, ReplaceChild 0 4 1, Cleanup 1]"
    unfolding n4 by simp
  from h a tr n(3) b(2) c4 show ?thesis
    unfolding res_def by simp
qed

text \<open>
  Claim C6 as stated fails. On the list of the three text nodes of \<open>dom3\<close> and the string x,
  \<^verbatim>\<open>updateMany\<close> returns the new node 4 and leaves the text of node 1 as it was, whereas
  the single-node rule \<^verbatim>\<open>updateOne\<close>, applied to node 1 once the other two are removed,
  returns node 1 itself with its text changed.
\<close>

theorem updateMany_scalar_counterexample:
  "fst (updateMany 0 [1, 2, 3] (Str ''x'') dom3) = Inr (One 4)
   \<and> content (snd (updateMany 0 [1, 2, 3] (Str ''x'') dom3)) 1 = (TEXT_NODE, ''a'')
   \<and> fst (updateOne 1 (Str ''x'') (snd (collapse_loop [2, 3] 0 dom3))) = Inr (One 1)
   \<and> content (snd (updateOne 1 (Str ''x'') (snd (collapse_loop [2, 3] 0 dom3)))) 1 = (TEXT_NODE, ''x'')"
proof -
  have a: "fst (updateMany 0 [1, 2, 3] (Str ''x'') dom3) = Inr (One 4)"
    by code_simp
  have b: "content (snd (updateMany 0 [1, 2, 3] (Str ''x'') dom3)) 1 = (TEXT_NODE, ''a'')"
    by code_simp
  have c: "fst (updateOne 1 (Str ''x'') (snd (collapse_loop [2, 3] 0 dom3))) = Inr (One 1)"
    by code_simp
  have d: "content (snd (updateOne 1 (Str ''x'') (snd (collapse_loop [2, 3] 0 dom3)))) 1 = (TEXT_NODE, ''x'')"
    by code_simp
  from a b c d show ?thesis by blast
qed

subsection \<open>The index loops as list recursions\<close>

lemma update_loop_upt:
  "update_loop i m ns vs res st =
       (case update_each (map (\<lambda>j. (ns ! j, vs ! j)) [i..<m]) st of
          (Inl e, st1) \<Rightarrow> (Inl e, st1)
        | (Inr xs, st1) \<Rightarrow> (Inr (res @ xs), st1))"
proof (induction i m ns vs res st rule: update_loop.induct)
  case (1 i m ns vs res st)
  show ?case
  proof (cases "i < m")
    case False
    then show ?thesis by (simp add: update_loop.simps[of i])
  next
    case True
    then have up: "[i..<m] = i # [Suc i..<m]"
      by (rule upt_conv_Cons)
    obtain out st1 where u: "updateOne (ns ! i) (vs ! i) st = (out, st1)"
      by (cases "updateOne (ns ! i) (vs ! i) st")
    show ?thesis
    proof (cases out)
      case (Inl e)
      with True u show ?thesis unfolding up by (simp add: update_loop.simps[of i])
    next
      case (Inr r)
      show ?thesis
      proof (cases r)
        case (One k)
        from "1.IH"(1)[OF True u[symmetric] Inr One] True u Inr One
        show ?thesis unfolding up
          by (simp add: update_loop.simps[of i] split: prod.splits sum.splits)
      next
        case (Many b ks)
        from "1.IH"(2)[OF True u[symmetric] Inr Many] True u Inr Many
        show ?thesis unfolding up
          by (simp add: update_loop.simps[of i] split: prod.splits sum.splits)
      qed
    qed
  qed
qed

lemma zip_take_upt:
  "m \<le> length ns \<Longrightarrow> m \<le> length vs \<Longrightarrow>
     map (\<lambda>j. (ns ! j, vs ! j)) [0..<m] = zip (take m ns) (take m vs)"
  by (rule nth_equalityI) simp_all

lemma update_loop_each:
  "m \<le> length ns \<Longrightarrow> m \<le> length vs \<Longrightarrow>
     update_loop 0 m ns vs [] st = update_each (zip (take m ns) (take m vs)) st"
  by (simp add: update_loop_upt zip_take_upt split: prod.splits sum.splits)

lemma remove_loop_fold: "remove_loop i ns st = fold remove_from_parent (drop i ns) st"
proof (induction i ns st rule: remove_loop.induct)
  case (1 i ns st)
  show ?case
  proof (cases "i < length ns")
    case True
    have d: "drop i ns = ns ! i # drop (Suc i) ns"
      using True by (simp add: Cons_nth_drop_Suc)
    have step: "remove_loop i ns st = remove_loop (Suc i) ns (remove_from_parent (ns ! i) st)"
      using True by (subst remove_loop.simps) simp
    have "fold remove_from_parent (drop i ns) st
        = fold remove_from_parent (drop (Suc i) ns) (remove_from_parent (ns ! i) st)"
      by (subst d) simp
    with step "1.IH"[OF True] show ?thesis by simp
  next
    case False
    then show ?thesis by (simp add: remove_loop.simps[of i])
  qed
qed

lemma insert_loop_each: "insert_loop i vs res st = insert_each (drop i vs) res st"
proof (induction i vs res st rule: insert_loop.induct)
  case (1 i vs res st)
  show ?case
  proof (cases "i < length vs")
    case False
    then show ?thesis by (simp add: insert_loop.simps[of i])
  next
    case True
    have dv: "drop i vs = vs ! i # drop (Suc i) vs"
      using True by (simp add: Cons_nth_drop_Suc)
    obtain out st1 where t: "toNode (vs ! i) st = (out, st1)"
      by (cases "toNode (vs ! i) st")
    show ?thesis
    proof (cases out)
      case (Inl e)
      with True t dv show ?thesis by (simp add: insert_loop.simps[of i])
    next
      case (Inr r)
      show ?thesis
      proof (cases "res = []")
        case True
        with \<open>i < length vs\<close> t dv Inr show ?thesis by (simp add: insert_loop.simps[of i])
      next
        case False
        obtain out2 st2 where ia: "insertAfter r (last res) st1 = (out2, st2)"
          by (cases "insertAfter r (last res) st1")
        show ?thesis
        proof (cases out2)
          case (Inl e)
          with True t dv Inr False ia show ?thesis by (simp add: insert_loop.simps[of i])
        next
          case (Inr u)
          have nr: "(case r of Many x new \<Rightarrow> new | One n \<Rightarrow> [n]) = nodes_of r"
            by (cases r) simp_all
          from "1.IH"[OF True t[symmetric] \<open>out = Inr r\<close> False ia[symmetric] Inr]
            True t dv \<open>out = Inr r\<close> False ia Inr nr
          show ?thesis by (simp add: insert_loop.simps[of i])
        qed
      qed
    qed
  qed
qed

lemma updateMany_reconcile:
  "b \<noteq> a \<Longrightarrow> updateMany a ns (Arr b vs) st = reconcile ns vs st"
  by (simp add: updateMany_def reconcile_def Let_def update_loop_each remove_loop_fold insert_loop_each
      split: prod.splits sum.splits)

subsection \<open>An array as the new value\<close>

lemma replaceNode_One_shape:
  "replaceNode (One k) old st = (Inr r, st') \<Longrightarrow> r = One k"
  by (auto split: sum.splits)

lemma replace_with_flat:
  "\<not> isArray v \<Longrightarrow> replace_with v old st = (Inr r, st') \<Longrightarrow> \<exists>k. r = One k"
  unfolding replace_with_def
  by (auto split: prod.splits sum.splits dest!: toNode_single dest: replaceNode_One_shape)

lemma updateOne_flat:
  assumes na: "\<not> isArray v" and run: "updateOne n v st = (Inr r, st')"
  shows "\<exists>k. r = One k"
proof -
  from run consider (same) "r = One n" | (replaced) "replace_with v n st = (Inr r, st')"
    unfolding updateOne_def by (auto split: if_splits ntype.splits)
  then show ?thesis
  proof cases
    case same
    then show ?thesis by blast
  next
    case replaced
    with na show ?thesis by (rule replace_with_flat)
  qed
qed

lemma update_each_length:
  "\<forall>p\<in>set ps. \<not> isArray (snd p) \<Longrightarrow> update_each ps st = (Inr xs, st') \<Longrightarrow> length xs = length ps"
proof (induction ps arbitrary: st xs)
  case Nil
  then show ?case by simp
next
  case (Cons p ps)
  obtain n v where p: "p = (n, v)" by (cases p)
  from Cons.prems(2) p obtain r st1 ys where
    u: "updateOne n v st = (Inr r, st1)" and e: "update_each ps st1 = (Inr ys, st')"
    and xs: "xs = nodes_of r @ ys"
    by (auto split: prod.splits sum.splits)
  from Cons.prems(1) p have "\<not> isArray v" by simp
  from updateOne_flat[OF this u] obtain k where "r = One k" ..
  moreover have "length ys = length ps"
    using Cons.IH[OF _ e] Cons.prems(1) by simp
  ultimately show ?case using xs by simp
qed

lemma insert_each_length:
  "\<forall>v\<in>set vs. \<not> isArray v \<Longrightarrow> insert_each vs res st = (Inr xs, st') \<Longrightarrow>
     length xs = length res + length vs"
proof (induction vs arbitrary: res st)
  case Nil
  then show ?case by simp
next
  case (Cons v vs)
  from Cons.prems(2) obtain r st1 u st2 where
    t: "toNode v st = (Inr r, st1)" and ne: "res \<noteq> []"
    and e: "insert_each vs (res @ nodes_of r) st2 = (Inr xs, st')"
    by (auto split: prod.splits sum.splits if_splits)
  from Cons.prems(1) have "\<not> isArray v" by simp
  from toNode_single[OF this t] obtain k where "r = One k" by blast
  with Cons.IH[OF _ e] Cons.prems(1) show ?case by simp
qed

text \<open>
  Claim C3, as amended. For an array new value (a different object than the list) none of
  whose elements is an array: \<^verbatim>\<open>updateMany\<close> is the three steps of the specification --
  positions up to the shorter length reconciled one by one with the single-node rule, the
  surplus old nodes removed, each surplus new element converted and inserted after the last
  node collected so far -- and whenever it returns, the list returned has exactly as many
  nodes as the new value has elements, so it is non-empty when the new value is.
\<close>

theorem updateMany_array_length:
  assumes ne: "b \<noteq> a" and flat: "\<forall>v\<in>set vs. \<not> isArray v"
  shows "updateMany a ns (Arr b vs) st = reconcile ns vs st
         \<and> (\<forall>r st'. updateMany a ns (Arr b vs) st = (Inr r, st') \<longrightarrow>
               length (nodes_of r) = length vs \<and> (vs \<noteq> [] \<longrightarrow> nodes_of r \<noteq> []))"
proof -
  have eq: "updateMany a ns (Arr b vs) st = reconcile ns vs st"
    using ne by (rule updateMany_reconcile)
  have len: "length (nodes_of r) = length vs" if run: "reconcile ns vs st = (Inr r, st')" for r st'
  proof -
    define m where "m = min (length vs) (length ns)"
    from run obtain res st1 res' where
      u: "update_each (zip (take m ns) (take m vs)) (st\<lparr> nextArr := Suc (nextArr st) \<rparr>) = (Inr res, st1)"
      and i: "insert_each (drop m vs) res (fold remove_from_parent (drop m ns) st1) = (Inr res', st')"
      and r: "r = Many (nextArr st) res'"
      unfolding reconcile_def Let_def m_def[symmetric]
      by (auto split: prod.splits sum.splits)
    have f1: "\<forall>p\<in>set (zip (take m ns) (take m vs)). \<not> isArray (snd p)"
      using flat by (auto dest!: set_zip_rightD in_set_takeD)
    have f2: "\<forall>v\<in>set (drop m vs). \<not> isArray v"
      using flat by (auto dest: in_set_dropD)
    have "length res = m"
      using update_each_length[OF f1 u] by (simp add: m_def)
    moreover have "length res' = length res + length (drop m vs)"
      using insert_each_length[OF f2 i] .
    ultimately show ?thesis using r by (simp add: m_def)
  qed
  have post: "length (nodes_of r) = length vs \<and> (vs \<noteq> [] \<longrightarrow> nodes_of r \<noteq> [])"
    if "updateMany a ns (Arr b vs) st = (Inr r, st')" for r st'
  proof -
    from that eq have "length (nodes_of r) = length vs" by (simp add: len)
    then show ?thesis by (metis length_0_conv)
  qed
  from eq post show ?thesis by blast
qed


theorem updateMany_array_length_witness:
  "(5::nat) \<noteq> 0
   \<and> list_all (\<lambda>v. \<not> isArray v) [Str ''a'', Str ''b'', Str ''c'', Str ''d'', Str ''e'']
   \<and> fst (updateMany 0 [1, 2, 3] (Arr 5 [Str ''a'', Str ''b'', Str ''c'', Str ''d'', Str ''e'']) dom3)
       = Inr (Many 1 [1, 2, 3, 4, 5])
   \<and> length (nodes_of (Many 1 [1, 2, 3, 4, 5])) = length [Str ''a'', Str ''b'', Str ''c'', Str ''d'', Str ''e'']
   \<and> children_of (snd (updateMany 0 [1, 2, 3] (Arr 5 [Str ''a'', Str ''b'', Str ''c'', Str ''d'', Str ''e'']) dom3)) 0
       = [1, 2, 3, 4, 5]
   \<and> fst (updateMany 0 [1, 2, 3] (Arr 5 [Str ''z'']) dom3) = Inr (Many 1 [1])
   \<and> children_of (snd (updateMany 0 [1, 2, 3] (Arr 5 [Str ''z'']) dom3)) 0 = [1]"
proof -
  define vs where "vs = [Str ''a'', Str ''b'', Str ''c'', Str ''d'', Str ''e'']"
  define res where "res = snd (updateMany 0 [1, 2, 3] (Arr 5 vs) dom3)"
  have ne: "(5::nat) \<noteq> 0" by simp
  have flat: "\<forall>v\<in>set vs. \<not> isArray v" by (simp add: vs_def)
  have a: "fst (updateMany 0 [1, 2, 3] (Arr 5 vs) dom3) = Inr (Many 1 [1, 2, 3, 4, 5])"
    unfolding vs_def by code_simp
  have b: "children_of (snd (updateMany 0 [1, 2, 3] (Arr 5 vs) dom3)) 0 = [1, 2, 3, 4, 5]"
    unfolding vs_def by code_simp
  have c: "fst (updateMany 0 [1, 2, 3] (Arr 5 [Str ''z'']) dom3) = Inr (Many 1 [1])"
    by code_simp
  have d: "children_of (snd (updateMany 0 [1, 2, 3] (Arr 5 [Str ''z'']) dom3)) 0 = [1]"
    by code_simp
  from a have run: "updateMany 0 [1, 2, 3] (Arr 5 vs) dom3 = (Inr (Many 1 [1, 2, 3, 4, 5]), res)"
    unfolding res_def by (metis prod.collapse)
  from updateMany_array_length [OF ne flat, of "[1, 2, 3]" dom3, THEN conjunct2, rule_format, OF run]
  have len: "length (nodes_of (Many 1 [1, 2, 3, 4, 5])) = length vs"
    by (rule conjunct1)
  have fl: "list_all (\<lambda>v. \<not> isArray v) vs" by (simp add: vs_def)
  from ne fl a len b c d show ?thesis
    unfolding vs_def by blast
qed

text \<open>
  Claim C3 as stated fails. Against the empty array the list of the three text nodes of
  \<open>dom3\<close> becomes an empty list; against a one-element array whose element is itself an
  array of two strings it becomes a list of two nodes.
\<close>

theorem updateMany_array_counterexample:
  "fst (updateMany 0 [1, 2, 3] (Arr 5 []) dom3) = Inr (Many 1 [])
   \<and> fst (updateMany 0 [1, 2, 3] (Arr 5 [Arr 6 [Str ''x'', Str ''y'']]) dom3) = Inr (Many 1 [4, 5])"
proof -
  have a: "fst (updateMany 0 [1, 2, 3] (Arr 5 []) dom3) = Inr (Many 1 [])"
    by code_simp
  have b: "fst (updateMany 0 [1, 2, 3] (Arr 5 [Arr 6 [Str ''x'', Str ''y'']]) dom3) = Inr (Many 1 [4, 5])"
    by code_simp
  from a b show ?thesis by blast
qed


subsection \<open>Updating with what is already rendered\<close>

lemma retexted_refl: "retexted st st"
  by (simp add: retexted_def)

lemma retexted_trans: "retexted a b \<Longrightarrow> retexted b c \<Longrightarrow> retexted a c"
  unfolding retexted_def
proof (intro conjI allI)
  fix n
  assume h: "nextNode b = nextNode a \<and> trace b = trace a \<and> attributeToProperty b = attributeToProperty a \<and>
    (\<forall>n. nodes b n = (nodes a n)\<lparr>nodeValue := nodeValue (nodes b n)\<rparr>)"
    "nextNode c = nextNode b \<and> trace c = trace b \<and> attributeToProperty c = attributeToProperty b \<and>
    (\<forall>n. nodes c n = (nodes b n)\<lparr>nodeValue := nodeValue (nodes c n)\<rparr>)"
  then have "nodes c n = (nodes b n)\<lparr>nodeValue := nodeValue (nodes c n)\<rparr>"
    and "nodes b n = (nodes a n)\<lparr>nodeValue := nodeValue (nodes b n)\<rparr>" by blast+
  then show "nodes c n = (nodes a n)\<lparr>nodeValue := nodeValue (nodes c n)\<rparr>"
    by (metis node.update_convs(2) node.surjective node.select_convs)
qed auto

lemma retexted_nodeType: "retexted st st' \<Longrightarrow> nodeType (nodes st' n) = nodeType (nodes st n)"
  unfolding retexted_def by (metis node.select_convs(1) node.surjective node.update_convs(2))

lemma renders_retexted: "retexted st st' \<Longrightarrow> renders st' n v = renders st n v"
  by (cases v) (simp_all add: retexted_nodeType)

lemma retexted_set_nodeValue: "retexted st (set_nodeValue n v st)"
  by (simp add: retexted_def set_nodeValue_def)

lemma updateOne_renders:
  "renders st n v \<Longrightarrow> \<exists>st'. updateOne n v st = (Inr (One n), st') \<and> retexted st st'"
  by (cases v) (auto simp: updateOne_def retexted_refl retexted_set_nodeValue)

lemma update_each_renders:
  "list_all2 (renders st) ns vs \<Longrightarrow>
     \<exists>st'. update_each (zip ns vs) st = (Inr ns, st') \<and> retexted st st'"
proof (induction ns arbitrary: vs st)
  case Nil
  then show ?case by (simp add: retexted_refl)
next
  case (Cons n ns)
  from Cons.prems obtain v ws where vs: "vs = v # ws" and rn: "renders st n v"
    and rest: "list_all2 (renders st) ns ws"
    by (auto simp: list_all2_Cons1)
  from updateOne_renders[OF rn] obtain st1 where
    u: "updateOne n v st = (Inr (One n), st1)" and r1: "retexted st st1" by auto
  have "list_all2 (renders st1) ns ws"
    using rest renders_retexted[OF r1] by (simp add: list_all2_conv_all_nth)
  from Cons.IH[OF this] obtain st' where
    e: "update_each (zip ns ws) st1 = (Inr ns, st')" and r2: "retexted st1 st'" by auto
  from u e vs retexted_trans[OF r1 r2] show ?case by simp
qed

text \<open>
  Claim C9, as amended. Updating a node list with the reference-identical array returns the
  list and changes nothing. Updating it with another array none of whose elements is an array,
  when every node of the list is what \<^verbatim>\<open>toNode\<close> renders the element at its position as (the
  node itself for a tree node, a comment node for null, a text node for a primitive), returns
  the same nodes in the same order, and the state differs at most in the text of nodes:
  nothing is created, inserted, removed, replaced or cleaned up.
\<close>

theorem updateMany_idempotent:
  assumes rend: "list_all2 (renders st) ns vs"
  shows "updateMany a ns (Arr a ws) st = (Inr (Many a ns), st)
         \<and> (b \<noteq> a \<longrightarrow>
              (\<exists>st'. updateMany a ns (Arr b vs) st = (Inr (Many (nextArr st) ns), st')
                     \<and> retexted st st'))"
proof -
  have same: "updateMany a ns (Arr a ws) st = (Inr (Many a ns), st)"
    by (simp add: updateMany_def)
  have other: "\<exists>st'. updateMany a ns (Arr b vs) st = (Inr (Many (nextArr st) ns), st') \<and> retexted st st'"
    if ne: "b \<noteq> a"
  proof -
    define st0 where "st0 = st\<lparr> nextArr := Suc (nextArr st) \<rparr>"
    have r0: "retexted st st0" by (simp add: retexted_def st0_def)
    have len: "length ns = length vs" using rend by (rule list_all2_lengthD)
    have "list_all2 (renders st0) ns vs"
      using rend renders_retexted[OF r0] by (simp add: list_all2_conv_all_nth)
    from update_each_renders[OF this] obtain st' where
      e: "update_each (zip ns vs) st0 = (Inr ns, st')" and r1: "retexted st0 st'" by blast
    have "reconcile ns vs st = (Inr (Many (nextArr st) ns), st')"
      using e len by (simp add: reconcile_def st0_def[symmetric])
    with updateMany_reconcile[OF ne] retexted_trans[OF r0 r1] show ?thesis by auto
  qed
  from same other show ?thesis by blast
qed

theorem updateMany_idempotent_witness:
  "list_all2 (renders dom3) [1, 2, 3] [Str ''a'', Str ''b'', Str ''c'']
   \<and> updateMany 0 [1, 2, 3] (Arr 0 []) dom3 = (Inr (Many 0 [1, 2, 3]), dom3)
   \<and> (5::nat) \<noteq> 0
   \<and> fst (updateMany 0 [1, 2, 3] (Arr 5 [Str ''a'', Str ''b'', Str ''c'']) dom3) = Inr (Many 1 [1, 2, 3])
   \<and> trace (snd (updateMany 0 [1, 2, 3] (Arr 5 [Str ''a'', Str ''b'', Str ''c'']) dom3)) = []"
proof -
  define vs where "vs = [Str ''a'', Str ''b'', Str ''c'']"
  have r: "list_all2 (renders dom3) [1, 2, 3] vs"
    unfolding vs_def by code_simp
  have ne: "(5::nat) \<noteq> 0" by simp
  have t: "trace dom3 = []" "nextArr dom3 = 1" by code_simp+
  from updateMany_idempotent [OF r, of 0 "[]" 5] ne
  obtain st' where same: "updateMany 0 [1, 2, 3] (Arr 0 []) dom3 = (Inr (Many 0 [1, 2, 3]), dom3)"
    and run: "updateMany 0 [1, 2, 3] (Arr 5 vs) dom3 = (Inr (Many (nextArr dom3) [1, 2, 3]), st')"
    and rt: "retexted dom3 st'"
    by blast
  from run t have a: "fst (updateMany 0 [1, 2, 3] (Arr 5 vs) dom3) = Inr (Many 1 [1, 2, 3])"
    by simp
  from run rt t have b: "trace (snd (updateMany 0 [1, 2, 3] (Arr 5 vs) dom3)) = []"
    by (simp add: retexted_def)
  from r same ne a b show ?thesis
    unfolding vs_def by blast
qed

text \<open>
  Claim C9 as stated fails. The three text nodes of \<open>dom3\<close> are what the array
  \<open>[[a, b], c]\<close> renders as; updating the list with that array replaces node 1 by two new
  nodes and removes node 3, so the list returned holds the nodes 4, 5 and 2.
\<close>

theorem updateMany_idempotent_counterexample:
  "items (Arr 5 [Arr 6 [Str ''a'', Str ''b''], Str ''c'']) = Inr [TextOf ''a'', TextOf ''b'', TextOf ''c'']
   \<and> map (content dom3) [1, 2, 3] = [(TEXT_NODE, ''a''), (TEXT_NODE, ''b''), (TEXT_NODE, ''c'')]
   \<and> fst (updateMany 0 [1, 2, 3] (Arr 5 [Arr 6 [Str ''a'', Str ''b''], Str ''c'']) dom3)
       = Inr (Many 1 [4, 5, 2])
   \<and> trace (snd (updateMany 0 [1, 2, 3] (Arr 5 [Arr 6 [Str ''a'', Str ''b''], Str ''c'']) dom3))
       = [ReplaceChild 0 5 1, Cleanup 1, RemoveChild 0 3]"
proof -
  have a: "items (Arr 5 [Arr 6 [Str ''a'', Str ''b''], Str ''c'']) = Inr [TextOf ''a'', TextOf ''b'', TextOf ''c'']"
    by simp
  have b: "map (content dom3) [1, 2, 3] = [(TEXT_NODE, ''a''), (TEXT_NODE, ''b''), (TEXT_NODE, ''c'')]"
    by code_simp
  have c: "fst (updateMany 0 [1, 2, 3] (Arr 5 [Arr 6 [Str ''a'', Str ''b''], Str ''c'']) dom3)
       = Inr (Many 1 [4, 5, 2])"
    by code_simp
  have d: "trace (snd (updateMany 0 [1, 2, 3] (Arr 5 [Arr 6 [Str ''a'', Str ''b''], Str ''c'']) dom3))
       = [ReplaceChild 0 5 1, Cleanup 1, RemoveChild 0 3]"
    by code_simp
  from a b c d show ?thesis by blast
qed

section \<open>Properties of the store\<close>

subsection \<open>A deeper bound on the calls into children changes no outcome\<close>

lemma set_loop1_mono:
  assumes cs: "\<And>c v s x. cs c v s = Some x \<Longrightarrow> cs' c v s = Some x"
  shows "set_loop1 cs r a keys h st = Some y \<Longrightarrow> set_loop1 cs' r a keys h st = Some y"
proof (induction keys arbitrary: h st)
  case Nil
  then show ?case by simp
next
  case (Cons key keys)
  show ?case
  proof (cases "key = ''set''")
    case True
    with Cons show ?thesis by simp
  next
    case nset: False
    show ?thesis
    proof (cases "child st r key")
      case None
      with nset Cons show ?thesis by simp
    next
      case (Some c)
      show ?thesis
      proof (cases "hasOwn (heap st a) key")
        case False
        with nset Some Cons show ?thesis by simp
      next
        case own: True
        show ?thesis
        proof (cases h)
          case True
          with nset Some own Cons show ?thesis by simp
        next
          case False
          show ?thesis
          proof (cases "cs c (getProp (heap st a) key) st")
            case None
            with nset Some own False Cons.prems show ?thesis by simp
          next
            case (Some x)
            then obtain ou st1 where x: "cs c (getProp (heap st a) key) st = Some (ou, st1)"
              by (cases x) simp
            note x' = cs[OF x]
            show ?thesis
            proof (cases ou)
              case (Inl e)
              from Cons.prems nset \<open>child st r key = Some c\<close> own False x x' show ?thesis
                unfolding Inl by auto
            next
              case (Inr b)
              from Cons.prems have "set_loop1 cs r a keys b st1 = Some y"
                using nset \<open>child st r key = Some c\<close> own False x unfolding Inr by simp
              from Cons.IH[OF this] nset \<open>child st r key = Some c\<close> own False x' show ?thesis
                unfolding Inr by simp
            qed
          qed
        qed
      qed
    qed
  qed
qed

lemma set_loop2_step_mono:
  assumes cs: "\<And>c v s x. cs c v s = Some x \<Longrightarrow> cs' c v s = Some x"
  shows "(case child st r key of
                 None \<Rightarrow> Some (Inr h, st)
               | Some c \<Rightarrow> (if h then Some (Inr h, st) else cs c v st)) = Some x
     \<Longrightarrow> (case child st r key of
                 None \<Rightarrow> Some (Inr h, st)
               | Some c \<Rightarrow> (if h then Some (Inr h, st) else cs' c v st)) = Some x"
  using cs by (auto split: option.splits if_splits)

lemma set_loop2_mono:
  assumes cs: "\<And>c v s x. cs c v s = Some x \<Longrightarrow> cs' c v s = Some x"
  shows "set_loop2 cs r a keys h st = Some y \<Longrightarrow> set_loop2 cs' r a keys h st = Some y"
proof (induction keys arbitrary: h st)
  case Nil
  then show ?case by simp
next
  case (Cons key keys)
  show ?case
  proof (cases "hasOwn (heap st a) key")
    case False
    with Cons show ?thesis by simp
  next
    case own: True
    define step where "step f = (case child st r key of
                 None \<Rightarrow> Some (Inr h, st)
               | Some c \<Rightarrow> (if h then Some (Inr h, st) else f c (getProp (heap st a) key) st))"
      for f :: "rid \<Rightarrow> sval \<Rightarrow> sstate \<Rightarrow> bool outcome"
    show ?thesis
    proof (cases "step cs")
      case None
      with own Cons.prems show ?thesis by (simp add: step_def)
    next
      case (Some x)
      then obtain ou st1 where x: "step cs = Some (ou, st1)"
        by (cases x) simp
      have x': "step cs' = Some (ou, st1)"
        using x set_loop2_step_mono[where cs=cs and cs'=cs' and st=st and r=r and key=key and h=h
            and v="getProp (heap st a) key" and x="(ou, st1)"] cs
        unfolding step_def by blast
      show ?thesis
      proof (cases ou)
        case (Inl e)
        from Cons.prems own x x' show ?thesis
          unfolding Inl by (auto simp: step_def)
      next
        case (Inr b)
        show ?thesis
        proof (cases b)
          case True
          from Cons.prems have "set_loop2 cs r a keys True st1 = Some y"
            using own x True unfolding Inr by (simp add: step_def)
          from Cons.IH[OF this] own x' True show ?thesis
            unfolding Inr by (simp add: step_def)
        next
          case False
          show ?thesis
          proof (cases "old_entry st1 r key")
            case (Inl e)
            from Cons.prems own x x' Inl False show ?thesis
              unfolding Inr by (auto simp: step_def)
          next
            case (Inr old)
            from Cons.prems have "set_loop2 cs r a keys (old \<noteq> getProp (heap st1 a) key) st1 = Some y"
              using own x Inr False unfolding \<open>ou = Inr b\<close> by (simp add: step_def)
            from Cons.IH[OF this] own x' Inr False show ?thesis
              unfolding \<open>ou = Inr b\<close> by (simp add: step_def)
          qed
        qed
      qed
    qed
  qed
qed

lemma set_body_mono:
  assumes cs: "\<And>c v s x. cs c v s = Some x \<Longrightarrow> cs' c v s = Some x"
    and run: "set_body cs r arg st = Some x"
  shows "set_body cs' r arg st = Some x"
proof -
  obtain v st0 where res:
    "(case arg of Updater f \<Rightarrow> f (rvalue (reactives st r)) st | Direct v \<Rightarrow> (v, st)) = (v, st0)"
    by (cases "(case arg of Updater f \<Rightarrow> f (rvalue (reactives st r)) st | Direct v \<Rightarrow> (v, st))")
  show ?thesis
  proof (cases v)
    case (SRef a)
    define keys1 where
      "keys1 = enum_keys (map fst (children (reactives st0 r))) @ remdups (''set'' # signalPrototype_keys)"
    show ?thesis
    proof (cases "set_loop1 cs r a keys1 False st0")
      case None
      with run res SRef show ?thesis by (auto simp: set_body_def keys1_def)
    next
      case (Some y1)
      then obtain o1 st1 where l1: "set_loop1 cs r a keys1 False st0 = Some (o1, st1)"
        by (cases y1) simp
      have l1': "set_loop1 cs' r a keys1 False st0 = Some (o1, st1)"
        using cs l1 by (rule set_loop1_mono)
      show ?thesis
      proof (cases o1)
        case (Inl e)
        from run res SRef l1 l1' show ?thesis
          unfolding Inl by (auto simp: set_body_def keys1_def)
      next
        case (Inr h1)
        define keys2 where "keys2 = enum_keys (map fst (props (heap st1 a)))"
        show ?thesis
        proof (cases "set_loop2 cs r a keys2 h1 st1")
          case None
          with run res SRef l1 show ?thesis
            unfolding Inr by (auto simp: set_body_def keys1_def keys2_def)
        next
          case (Some y2)
          have l2': "set_loop2 cs' r a keys2 h1 st1 = Some y2"
            using cs Some by (rule set_loop2_mono)
          from run res SRef l1 l1' Some l2' show ?thesis
            unfolding Inr by (auto simp: set_body_def keys1_def keys2_def)
        qed
      qed
    qed
  qed (use run res in \<open>simp_all add: set_body_def\<close>)
qed

lemma store_set_Suc:
  "store_set n r arg st = Some x \<Longrightarrow> store_set (Suc n) r arg st = Some x"
proof (induction n arbitrary: r arg st x)
  case 0
  then show ?case by (simp add: store_set.simps)
next
  case (Suc n)
  show ?case
    unfolding store_set.simps(2)[of "Suc n"]
  proof (rule set_body_mono)
    show "set_body (\<lambda>c v s. if isStore (reactives s c) then store_set n c (Direct v) s
                        else Some (signal_set c v s)) r arg st = Some x"
      using Suc.prems by (simp add: store_set.simps)
  next
    fix c v s y
    assume "(if isStore (reactives s c) then store_set n c (Direct v) s
                        else Some (signal_set c v s)) = Some y"
    then show "(if isStore (reactives s c) then store_set (Suc n) c (Direct v) s
                        else Some (signal_set c v s)) = Some y"
      using Suc.IH by (auto split: if_splits)
  qed
qed

lemma store_set_more:
  "store_set n r arg st = Some x \<Longrightarrow> store_set (n + k) r arg st = Some x"
  by (induction k) (auto dest: store_set_Suc)

subsection \<open>Whole-store writes\<close>

text \<open>
  The one-key scenario of the write-propagation property holds. With
  \<^verbatim>\<open>s = createStore({key: "value"})\<close> and \<^verbatim>\<open>t = s.key\<close> captured (the cell 1, reading value),
  the call \<^verbatim>\<open>s.set({key: "baz"})\<close> returns true at every depth bound, and afterwards \<open>t\<close>
  reads baz, as does the entry of the store's new underlying value.
\<close>

theorem write_propagation:
  "fst (createStore (SRef 0) key1) = Inr 0
   \<and> fst (handler_get 0 ''key'' key2) = Inr (Cell 1)
   \<and> rvalue (reactives key4 1) = SStr ''value''
   \<and> (\<forall>n. case store_set (Suc n) 0 (Direct (SRef 1)) key4 of
              None \<Rightarrow> False
            | Some (res, st') \<Rightarrow>
                res = Inr True \<and> rvalue (reactives st' 1) = SStr ''baz''
                \<and> rvalue (reactives st' 0) = SRef 1 \<and> getProp (heap st' 1) ''key'' = SStr ''baz'')"
proof -
  have a: "fst (createStore (SRef 0) key1) = Inr 0"
    by code_simp
  have b: "fst (handler_get 0 ''key'' key2) = Inr (Cell 1)"
    by code_simp
  have c: "rvalue (reactives key4 1) = SStr ''value''"
    by code_simp
  have base: "case store_set (Suc 0) 0 (Direct (SRef 1)) key4 of
              None \<Rightarrow> False
            | Some (res, st') \<Rightarrow>
                res = Inr True \<and> rvalue (reactives st' 1) = SStr ''baz''
                \<and> rvalue (reactives st' 0) = SRef 1 \<and> getProp (heap st' 1) ''key'' = SStr ''baz''"
    by code_simp
  have d: "case store_set (Suc n) 0 (Direct (SRef 1)) key4 of
              None \<Rightarrow> False
            | Some (res, st') \<Rightarrow>
                res = Inr True \<and> rvalue (reactives st' 1) = SStr ''baz''
                \<and> rvalue (reactives st' 0) = SRef 1 \<and> getProp (heap st' 1) ''key'' = SStr ''baz''" for n
  proof -
    from base obtain x where x: "store_set (Suc 0) 0 (Direct (SRef 1)) key4 = Some x"
      by (cases "store_set (Suc 0) 0 (Direct (SRef 1)) key4") auto
    from store_set_more[OF x, of n] have "store_set (Suc n) 0 (Direct (SRef 1)) key4 = Some x"
      by simp
    with base x show ?thesis by simp
  qed
  from a b c d show ?thesis by blast
qed

text \<open>
  Claim C5 at a failing input. A whole-store write does not reach every previously
  materialized child alias. With \<^verbatim>\<open>s = createStore({a: "x", b: "y"})\<close> and the aliases
  \<^verbatim>\<open>ta = s.a\<close> (the cell 1) and \<^verbatim>\<open>tb = s.b\<close> (the cell 2) captured, the call
  \<^verbatim>\<open>s.set({a: "x2", b: "y2"})\<close> returns true at every depth bound; afterwards the store's
  underlying value is the new object, \<^verbatim>\<open>s.a\<close> is still the alias \<open>ta\<close> and reads x2, but
  \<^verbatim>\<open>s.b\<close> is still the alias \<open>tb\<close> and reads y, not y2.
\<close>

theorem whole_store_write_misses_alias:
  "fst (handler_get 0 ''a'' ab2) = Inr (Cell 1)
   \<and> fst (handler_get 0 ''b'' ab3) = Inr (Cell 2)
   \<and> (\<forall>n. case store_set (Suc n) 0 (Direct (SRef 1)) ab5 of
              None \<Rightarrow> False
            | Some (res, st') \<Rightarrow>
                res = Inr True
                \<and> rvalue (reactives st' 0) = SRef 1
                \<and> getProp (heap st' 1) ''a'' = SStr ''x2''
                \<and> getProp (heap st' 1) ''b'' = SStr ''y2''
                \<and> fst (handler_get 0 ''a'' st') = Inr (Cell 1)
                \<and> rvalue (reactives st' 1) = SStr ''x2''
                \<and> fst (handler_get 0 ''b'' st') = Inr (Cell 2)
                \<and> rvalue (reactives st' 2) = SStr ''y'')"
proof -
  have a: "fst (handler_get 0 ''a'' ab2) = Inr (Cell 1)"
    by code_simp
  have b: "fst (handler_get 0 ''b'' ab3) = Inr (Cell 2)"
    by code_simp
  have base: "case store_set (Suc 0) 0 (Direct (SRef 1)) ab5 of
              None \<Rightarrow> False
            | Some (res, st') \<Rightarrow>
                res = Inr True
                \<and> rvalue (reactives st' 0) = SRef 1
                \<and> getProp (heap st' 1) ''a'' = SStr ''x2''
                \<and> getProp (heap st' 1) ''b'' = SStr ''y2''
                \<and> fst (handler_get 0 ''a'' st') = Inr (Cell 1)
                \<and> rvalue (reactives st' 1) = SStr ''x2''
                \<and> fst (handler_get 0 ''b'' st') = Inr (Cell 2)
                \<and> rvalue (reactives st' 2) = SStr ''y''"
    by code_simp
  have d: "case store_set (Suc n) 0 (Direct (SRef 1)) ab5 of
              None \<Rightarrow> False
            | Some (res, st') \<Rightarrow>
                res = Inr True
                \<and> rvalue (reactives st' 0) = SRef 1
                \<and> getProp (heap st' 1) ''a'' = SStr ''x2''
                \<and> getProp (heap st' 1) ''b'' = SStr ''y2''
                \<and> fst (handler_get 0 ''a'' st') = Inr (Cell 1)
                \<and> rvalue (reactives st' 1) = SStr ''x2''
                \<and> fst (handler_get 0 ''b'' st') = Inr (Cell 2)
                \<and> rvalue (reactives st' 2) = SStr ''y''" for n
  proof -
    from base obtain x where x: "store_set (Suc 0) 0 (Direct (SRef 1)) ab5 = Some x"
      by (cases "store_set (Suc 0) 0 (Direct (SRef 1)) ab5") auto
    from store_set_more[OF x, of n] have "store_set (Suc n) 0 (Direct (SRef 1)) ab5 = Some x"
      by simp
    with base x show ?thesis by simp
  qed
  from a b d show ?thesis by blast
qed

text \<open>
  Claim C1 at a failing input. With \<^verbatim>\<open>s = createStore({a: "x", b: "y"})\<close> and both children
  materialized, \<^verbatim>\<open>s.set({a: "x2", b: "y2"})\<close> finds both keys present on the store and owned
  by the new value, yet only the child of \<open>a\<close> receives its new value: once it has reported a
  change, \<^verbatim>\<open>hasChanged ||= ...\<close> no longer evaluates the call into the child of \<open>b\<close>, in
  either loop. That child still reads y and never emitted, while the new underlying value
  has y2.
\<close>

theorem store_set_skips_second_child:
  "child ab5 0 ''a'' = Some 1 \<and> child ab5 0 ''b'' = Some 2
   \<and> hasOwn (heap ab5 1) ''a'' \<and> hasOwn (heap ab5 1) ''b''
   \<and> rvalue (reactives ab5 2) = SStr ''y''
   \<and> (\<forall>n. case store_set (Suc n) 0 (Direct (SRef 1)) ab5 of
              None \<Rightarrow> False
            | Some (res, st') \<Rightarrow>
                res = Inr True \<and> rvalue (reactives st' 1) = SStr ''x2''
                \<and> rvalue (reactives st' 2) = SStr ''y''
                \<and> getProp (heap st' 1) ''b'' = SStr ''y2''
                \<and> emitted st' = [1, 0])"
proof -
  have a: "child ab5 0 ''a'' = Some 1" "child ab5 0 ''b'' = Some 2"
    "hasOwn (heap ab5 1) ''a''" "hasOwn (heap ab5 1) ''b''" "rvalue (reactives ab5 2) = SStr ''y''"
    by code_simp+
  have base: "case store_set (Suc 0) 0 (Direct (SRef 1)) ab5 of
              None \<Rightarrow> False
            | Some (res, st') \<Rightarrow>
                res = Inr True \<and> rvalue (reactives st' 1) = SStr ''x2''
                \<and> rvalue (reactives st' 2) = SStr ''y''
                \<and> getProp (heap st' 1) ''b'' = SStr ''y2''
                \<and> emitted st' = [1, 0]"
    by code_simp
  have d: "case store_set (Suc n) 0 (Direct (SRef 1)) ab5 of
              None \<Rightarrow> False
            | Some (res, st') \<Rightarrow>
                res = Inr True \<and> rvalue (reactives st' 1) = SStr ''x2''
                \<and> rvalue (reactives st' 2) = SStr ''y''
                \<and> getProp (heap st' 1) ''b'' = SStr ''y2''
                \<and> emitted st' = [1, 0]" for n
  proof -
    from base obtain x where x: "store_set (Suc 0) 0 (Direct (SRef 1)) ab5 = Some x"
      by (cases "store_set (Suc 0) 0 (Direct (SRef 1)) ab5") auto
    from store_set_more[OF x, of n] have "store_set (Suc n) 0 (Direct (SRef 1)) ab5 = Some x"
      by simp
    with base x show ?thesis by simp
  qed
  from a d show ?thesis by blast
qed

text \<open>
  Claim C2 at a failing input. In the same scenario the invariant holds before the call
  \<^verbatim>\<open>s.set({a: "x2", b: "y2"})\<close> and not after it has returned: the entry \<open>b\<close> of the store's
  underlying value is y2 and the materialized child of \<open>b\<close> reads y.
\<close>

theorem store_set_breaks_consistency:
  "consistent ab5 0
   \<and> (\<forall>n. case store_set (Suc n) 0 (Direct (SRef 1)) ab5 of
              None \<Rightarrow> False
            | Some (res, st') \<Rightarrow>
                res = Inr True \<and> \<not> consistent st' 0
                \<and> child st' 0 ''b'' = Some 2
                \<and> old_entry st' 0 ''b'' = Inr (SStr ''y2'')
                \<and> rvalue (reactives st' 2) = SStr ''y'')"
proof -
  have a: "consistent ab5 0"
    by code_simp
  have base: "case store_set (Suc 0) 0 (Direct (SRef 1)) ab5 of
              None \<Rightarrow> False
            | Some (res, st') \<Rightarrow>
                res = Inr True \<and> \<not> consistent st' 0
                \<and> child st' 0 ''b'' = Some 2
                \<and> old_entry st' 0 ''b'' = Inr (SStr ''y2'')
                \<and> rvalue (reactives st' 2) = SStr ''y''"
    by code_simp
  have d: "case store_set (Suc n) 0 (Direct (SRef 1)) ab5 of
              None \<Rightarrow> False
            | Some (res, st') \<Rightarrow>
                res = Inr True \<and> \<not> consistent st' 0
                \<and> child st' 0 ''b'' = Some 2
                \<and> old_entry st' 0 ''b'' = Inr (SStr ''y2'')
                \<and> rvalue (reactives st' 2) = SStr ''y''" for n
  proof -
    from base obtain x where x: "store_set (Suc 0) 0 (Direct (SRef 1)) ab5 = Some x"
      by (cases "store_set (Suc 0) 0 (Direct (SRef 1)) ab5") auto
    from store_set_more[OF x, of n] have "store_set (Suc n) 0 (Direct (SRef 1)) ab5 = Some x"
      by simp
    with base x show ?thesis by simp
  qed
  from a d show ?thesis by blast
qed

subsection \<open>Values that are not objects\<close>

text \<open>
  Claim C8. \<^verbatim>\<open>createStore\<close> throws for every initial value that is not a reference to an
  object, and leaves the state as it was. \<^verbatim>\<open>store.set\<close> throws for every value that is not a
  reference to an object, and leaves the state as it was; when the argument is an updater whose
  result is not a reference to an object, it throws in the state the updater itself returned,
  before any step of its own.
\<close>

theorem store_rejects_non_objects:
  "((\<forall>a. init \<noteq> SRef a) \<longrightarrow> createStore init st = (Inl StoreValueError, st))
   \<and> ((\<forall>a. v \<noteq> SRef a) \<longrightarrow> store_set (Suc n) r (Direct v) st = Some (Inl StoreValueError, st))
   \<and> ((\<forall>a. fst (f (rvalue (reactives st r)) st) \<noteq> SRef a) \<longrightarrow>
        store_set (Suc n) r (Updater f) st
          = Some (Inl StoreValueError, snd (f (rvalue (reactives st r)) st)))"
proof (intro conjI impI)
  assume "\<forall>a. init \<noteq> SRef a"
  then show "createStore init st = (Inl StoreValueError, st)"
    by (cases init) (simp_all add: createStore_def)
next
  assume "\<forall>a. v \<noteq> SRef a"
  then show "store_set (Suc n) r (Direct v) st = Some (Inl StoreValueError, st)"
    by (cases v) (simp_all add: store_set.simps set_body_def)
next
  assume h: "\<forall>a. fst (f (rvalue (reactives st r)) st) \<noteq> SRef a"
  obtain w st0 where w: "f (rvalue (reactives st r)) st = (w, st0)"
    by (cases "f (rvalue (reactives st r)) st")
  with h have "\<forall>a. w \<noteq> SRef a" by simp
  then show "store_set (Suc n) r (Updater f) st
          = Some (Inl StoreValueError, snd (f (rvalue (reactives st r)) st))"
    using w by (cases w) (simp_all add: store_set.simps set_body_def)
qed

theorem store_rejects_non_objects_witness:
  "createStore (SNum 0) sstate0 = (Inl StoreValueError, sstate0)
   \<and> createStore SNull sstate0 = (Inl StoreValueError, sstate0)
   \<and> store_set (Suc 0) 0 (Direct (SStr ''x'')) key4 = Some (Inl StoreValueError, key4)
   \<and> store_set (Suc 0) 0 (Updater (\<lambda>v s. (SNull, s))) key4 = Some (Inl StoreValueError, key4)"
  using store_rejects_non_objects [where init="SNum 0" and st=sstate0]
    store_rejects_non_objects [where init=SNull and st=sstate0]
    store_rejects_non_objects [where v="SStr ''x''" and st=key4 and r=0 and n=0 and f="\<lambda>v s. (SNull, s)"]
  by simp

end
